theory Spec2Isabelle
  imports Complex_Main "HOL-Library.Sublist"
begin

section \<open>Python strings\<close>

text \<open>
  The titles, dates and HTML bodies are Python \<open>str\<close> values.  They are modelled as
  \<open>string\<close>, each \<open>char\<close> read as the code point of the same number (the code points
  below 256).  \<open>str.isspace\<close>, \<open>str.isalnum\<close> and \<open>str.lower\<close> and the regular
  expression classes \<open>\s\<close> and \<open>\w\<close> are given on that range as CPython defines them.
\<close>

definition py_isspace :: "char \<Rightarrow> bool" where
  "py_isspace c =
     (let n = (of_char c :: nat)
      in (9 \<le> n \<and> n \<le> 13) \<or> (28 \<le> n \<and> n \<le> 32) \<or> n = 133 \<or> n = 160)"

definition py_isalnum :: "char \<Rightarrow> bool" where
  "py_isalnum c =
     (let n = (of_char c :: nat)
      in (48 \<le> n \<and> n \<le> 57) \<or> (65 \<le> n \<and> n \<le> 90) \<or> (97 \<le> n \<and> n \<le> 122) \<or>
         n = 170 \<or> n = 178 \<or> n = 179 \<or> n = 181 \<or> n = 185 \<or> n = 186 \<or>
         (188 \<le> n \<and> n \<le> 190) \<or> (192 \<le> n \<and> n \<le> 214) \<or>
         (216 \<le> n \<and> n \<le> 246) \<or> (248 \<le> n \<and> n \<le> 255))"

definition re_word :: "char \<Rightarrow> bool" where
  "re_word c = (py_isalnum c \<or> c = CHR ''_'')"

definition upper_chars :: string where
  "upper_chars =
      [CHR 0x41, CHR 0x42, CHR 0x43, CHR 0x44, CHR 0x45, CHR 0x46, CHR 0x47, CHR 0x48, CHR
      0x49, CHR 0x4A, CHR 0x4B, CHR 0x4C, CHR 0x4D, CHR 0x4E, CHR 0x4F, CHR 0x50, CHR 0x51,
      CHR 0x52, CHR 0x53, CHR 0x54, CHR 0x55, CHR 0x56, CHR 0x57, CHR 0x58, CHR 0x59, CHR
      0x5A, CHR 0xC0, CHR 0xC1, CHR 0xC2, CHR 0xC3, CHR 0xC4, CHR 0xC5, CHR 0xC6, CHR 0xC7,
      CHR 0xC8, CHR 0xC9, CHR 0xCA, CHR 0xCB, CHR 0xCC, CHR 0xCD, CHR 0xCE, CHR 0xCF, CHR
      0xD0, CHR 0xD1, CHR 0xD2, CHR 0xD3, CHR 0xD4, CHR 0xD5, CHR 0xD6, CHR 0xD8, CHR 0xD9,
      CHR 0xDA, CHR 0xDB, CHR 0xDC, CHR 0xDD, CHR 0xDE]"

definition lower_chars :: string where
  "lower_chars =
      [CHR 0x61, CHR 0x62, CHR 0x63, CHR 0x64, CHR 0x65, CHR 0x66, CHR 0x67, CHR 0x68, CHR
      0x69, CHR 0x6A, CHR 0x6B, CHR 0x6C, CHR 0x6D, CHR 0x6E, CHR 0x6F, CHR 0x70, CHR 0x71,
      CHR 0x72, CHR 0x73, CHR 0x74, CHR 0x75, CHR 0x76, CHR 0x77, CHR 0x78, CHR 0x79, CHR
      0x7A, CHR 0xE0, CHR 0xE1, CHR 0xE2, CHR 0xE3, CHR 0xE4, CHR 0xE5, CHR 0xE6, CHR 0xE7,
      CHR 0xE8, CHR 0xE9, CHR 0xEA, CHR 0xEB, CHR 0xEC, CHR 0xED, CHR 0xEE, CHR 0xEF, CHR
      0xF0, CHR 0xF1, CHR 0xF2, CHR 0xF3, CHR 0xF4, CHR 0xF5, CHR 0xF6, CHR 0xF8, CHR 0xF9,
      CHR 0xFA, CHR 0xFB, CHR 0xFC, CHR 0xFD, CHR 0xFE]"

definition py_lower_char :: "char \<Rightarrow> char" where
  "py_lower_char c = (case map_of (zip upper_chars lower_chars) c of Some l \<Rightarrow> l | None \<Rightarrow> c)"

definition py_lower :: "string \<Rightarrow> string" where
  "py_lower s = map py_lower_char s"

text \<open>
  \<open>s.strip()\<close> and \<open>s.rstrip()\<close>, and \<open>s.strip(ch)\<close> and \<open>s.rstrip(ch)\<close> for a
  single character \<open>ch\<close>.
\<close>

definition py_strip :: "string \<Rightarrow> string" where
  "py_strip s = rev (dropWhile py_isspace (rev (dropWhile py_isspace s)))"

definition rstrip :: "string \<Rightarrow> string" where
  "rstrip t = rev (dropWhile py_isspace (rev t))"


definition strip_char :: "char \<Rightarrow> string \<Rightarrow> string" where
  "strip_char ch s = rev (dropWhile (\<lambda>c. c = ch) (rev (dropWhile (\<lambda>c. c = ch) s)))"

definition rstrip_char :: "char \<Rightarrow> string \<Rightarrow> string" where
  "rstrip_char ch s = rev (dropWhile (\<lambda>c. c = ch) (rev s))"

text \<open>\<open>s.split()\<close>: the maximal runs of non-whitespace characters, in order.\<close>

function py_split :: "string \<Rightarrow> string list" where
  "py_split s =
     (case dropWhile py_isspace s of
        [] \<Rightarrow> []
      | c # cs \<Rightarrow>
          (c # takeWhile (\<lambda>d. \<not> py_isspace d) cs) #
          py_split (dropWhile (\<lambda>d. \<not> py_isspace d) cs))"
  by pat_completeness auto
termination
proof (relation "measure length")
  fix s :: string and c cs
  assume a: "dropWhile py_isspace s = c # cs"
  have "length (dropWhile (\<lambda>d. \<not> py_isspace d) cs) \<le> length cs"
    by (rule length_dropWhile_le)
  moreover have "length (c # cs) \<le> length s"
    using length_dropWhile_le [of py_isspace s] a by simp
  ultimately show "(dropWhile (\<lambda>d. \<not> py_isspace d) cs, s) \<in> measure length"
    by simp
qed simp

declare py_split.simps [simp del]

text \<open>\<open>' '.join(words)\<close>.\<close>

fun join_sp :: "string list \<Rightarrow> string" where
  "join_sp [] = []"
| "join_sp [w] = w"
| "join_sp (w # v # ws) = w @ CHR '' '' # join_sp (v # ws)"

text \<open>\<open>s.replace(a, new)\<close> for a single character \<open>a\<close>.\<close>

definition replace_char :: "char \<Rightarrow> string \<Rightarrow> string \<Rightarrow> string" where
  "replace_char a new s = concat (map (\<lambda>c. if c = a then new else [c]) s)"

text \<open>
  \<open>re.sub('[...]+', r, s)\<close> for a character class \<open>P\<close>: every maximal run of characters
  of the class is replaced by the one character \<open>r\<close>.
\<close>

function replace_runs :: "(char \<Rightarrow> bool) \<Rightarrow> char \<Rightarrow> string \<Rightarrow> string" where
  "replace_runs P r [] = []"
| "replace_runs P r (c # cs) =
     (if P c then r # replace_runs P r (dropWhile P cs) else c # replace_runs P r cs)"
  by pat_completeness auto
termination
  by (relation "measure (\<lambda>(P, r, s). length s)")
     (auto simp: le_imp_less_Suc length_dropWhile_le)

text \<open>\<open>str(n)\<close> for an integer and zero padding as \<open>strftime\<close> does it.\<close>

function string_of_nat :: "nat \<Rightarrow> string" where
  "string_of_nat n =
     (if n < 10 then [''0123456789'' ! n]
      else string_of_nat (n div 10) @ [''0123456789'' ! (n mod 10)])"
  by pat_completeness auto
termination
  by (relation "measure id") auto

definition string_of_int :: "int \<Rightarrow> string" where
  "string_of_int i = (if i < 0 then CHR ''-'' # string_of_nat (nat (- i)) else string_of_nat (nat i))"

definition zero_pad :: "nat \<Rightarrow> nat \<Rightarrow> string" where
  "zero_pad width n =
     replicate (width - length (string_of_nat n)) (CHR ''0'') @ string_of_nat n"

section \<open>Text and glyph segmentation (\<open>PDFGenerator._split_text_and_emojis\<close>)\<close>

text \<open>
  The segmentation and the line layout never look inside a code point, so they are
  modelled over lists of an arbitrary character type \<open>'c\<close>.  A segment is the pair
  \<open>(is_emoji, content)\<close> of the source.

  \<open>emoji.EMOJI_DATA\<close> is a table of the \<open>emoji\<close> package; only its keys in
  iteration order matter, and they are the parameter \<open>emoji_data\<close>.

  The \<open>while i < len(text)\<close> loop is \<open>split_loop\<close>; \<open>text[i:]\<close> is
  \<open>drop i text\<close>.  The \<open>any(...)\<close> test followed by the \<open>for ... break\<close>
  search selects the first key, in table order, that is a prefix of \<open>text[i:]\<close>: that is
  \<open>find\<close>.  The loop makes no progress when the selected key is empty, so it is a
  partial function: not returning is the value \<open>None\<close>.
\<close>

type_synonym 'c segment = "bool \<times> 'c list"

definition append_text :: "'c segment list \<Rightarrow> 'c list \<Rightarrow> 'c segment list" where
  "append_text segments current_text =
     (if current_text \<noteq> [] then segments @ [(False, current_text)] else segments)"

partial_function (option) split_loop ::
  "'c list list \<Rightarrow> 'c list \<Rightarrow> nat \<Rightarrow> 'c list \<Rightarrow> 'c segment list \<Rightarrow> 'c segment list option"
where
  "split_loop emoji_data text i current_text segments =
     (if i < length text then
        (case find (\<lambda>em. prefix em (drop i text)) emoji_data of
           Some em \<Rightarrow>
             split_loop emoji_data text (i + length em) []
               (append_text segments current_text @ [(True, em)])
         | None \<Rightarrow>
             split_loop emoji_data text (i + 1) (current_text @ [text ! i]) segments)
      else Some (append_text segments current_text))"

definition split_text_and_emojis :: "'c list list \<Rightarrow> 'c list \<Rightarrow> 'c segment list option" where
  "split_text_and_emojis emoji_data text = split_loop emoji_data text 0 [] []"

text \<open>
  The well-formedness of a segment list: no empty text segment, and no two text segments
  next to each other.
\<close>

definition segments_ok :: "'c segment list \<Rightarrow> bool" where
  "segments_ok segs =
     (list_all (\<lambda>s. fst s \<or> snd s \<noteq> []) segs \<and> successively (\<lambda>a b. fst a \<or> fst b) segs)"

section \<open>Glyph cache (\<open>CacheManager\<close>)\<close>

text \<open>
  A path is the list of its components; \<open>dir / name\<close> is \<open>dir @ [name]\<close>.

  The object's state is the in-memory \<open>emoji_mapping\<close>, the mapping last written to
  \<open>emoji_mapping.json\<close>, and the image files present in the cache directory.  The field
  \<open>fetches\<close> counts the calls of \<open>requests.get\<close> made so far.

  The collaborators are parameters: \<open>response n key\<close> is the body of the request number
  \<open>n\<close> made for \<open>key\<close>, or \<open>None\<close> when \<open>requests.get\<close> or
  \<open>raise_for_status\<close> raises; \<open>decodable\<close> says whether \<open>Image.open\<close>,
  \<open>convert\<close> and \<open>save\<close> go through on the bytes; \<open>md5_hex\<close> is
  \<open>hashlib.md5(...).hexdigest()\<close>.
\<close>

type_synonym path = "string list"
type_synonym bytes = "nat list"

record 'c cache_manager =
  cache_dir :: path
  emoji_mapping :: "'c list \<rightharpoonup> string"
  mapping_file :: "'c list \<rightharpoonup> string"
  files :: "string set"
  fetches :: nat

record 'c provider =
  response :: "nat \<Rightarrow> 'c list \<Rightarrow> bytes option"
  decodable :: "bytes \<Rightarrow> bool"
  md5_hex :: "'c list \<Rightarrow> string"

definition save_emoji_mapping :: "'c cache_manager \<Rightarrow> 'c cache_manager" where
  "save_emoji_mapping cm = cm\<lparr>mapping_file := emoji_mapping cm\<rparr>"

definition get_emoji_filename :: "'c provider \<Rightarrow> 'c list \<Rightarrow> string" where
  "get_emoji_filename prov emoji_char = ''emoji_'' @ md5_hex prov emoji_char @ ''.png''"

definition download_emoji_image ::
  "'c provider \<Rightarrow> 'c list \<Rightarrow> 'c cache_manager \<Rightarrow> bytes option \<times> 'c cache_manager" where
  "download_emoji_image prov emoji_char cm =
     (response prov (fetches cm) emoji_char, cm\<lparr>fetches := Suc (fetches cm)\<rparr>)"

definition set_mapping :: "'c list \<Rightarrow> string \<Rightarrow> 'c cache_manager \<Rightarrow> 'c cache_manager" where
  "set_mapping emoji_char filename cm =
     save_emoji_mapping (cm\<lparr>emoji_mapping := (emoji_mapping cm)(emoji_char \<mapsto> filename)\<rparr>)"

text \<open>
  \<open>get_emoji_image\<close> returns the path (or \<open>None\<close>) and the new state.  An exception of
  the decoding is caught by the method's \<open>except\<close> and gives \<open>None\<close>; \<open>if image_data\<close>
  is false for \<open>None\<close> and for empty bytes.
\<close>

definition get_emoji_image ::
  "'c provider \<Rightarrow> 'c list \<Rightarrow> 'c cache_manager \<Rightarrow> path option \<times> 'c cache_manager" where
  "get_emoji_image prov emoji_char cm =
     (case emoji_mapping cm emoji_char of
        Some name \<Rightarrow> (Some (cache_dir cm @ [name]), cm)
      | None \<Rightarrow>
          (let filename = get_emoji_filename prov emoji_char in
           if filename \<notin> files cm then
             (case download_emoji_image prov emoji_char cm of
                (image_data, cm1) \<Rightarrow>
                  (case image_data of
                     None \<Rightarrow> (None, cm1)
                   | Some data \<Rightarrow>
                       if data = [] then (None, cm1)
                       else if \<not> decodable prov data then (None, cm1)
                       else
                         (let cm2 = cm1\<lparr>files := insert filename (files cm1)\<rparr>;
                              cm3 = set_mapping emoji_char filename cm2;
                              cm4 = set_mapping emoji_char filename cm3
                          in (Some (cache_dir cm4 @ [filename]), cm4))))
           else
             (let cm1 = set_mapping emoji_char filename cm
              in (Some (cache_dir cm1 @ [filename]), cm1))))"

section \<open>The document (\<open>FPDF\<close>) and the line layout\<close>

text \<open>
  The lengths of the line layout are modelled as real numbers; the rounding of the float
  operations is modelled for the image sizes, below.  Of the \<open>FPDF\<close> object the model keeps the page geometry, the cursor and what was
  drawn: the finished pages and the open page, each the list of its draw commands.  The
  model starts after the first \<open>add_page\<close>, so a page is always open.  Automatic page
  breaks and line wrapping inside \<open>FPDF.write\<close> are not modelled: \<open>pdf_write\<close> records the
  text at the cursor and moves the cursor right by the text's width.
\<close>

record image =
  width :: nat
  height :: nat

datatype 'c draw =
    DrawText "'c list" real real
  | DrawEmoji path real real real
  | DrawImage image real real real

record 'c pdf =
  pdf_w :: real
  pdf_h :: real
  pdf_k :: real
  l_margin :: real
  r_margin :: real
  t_margin :: real
  b_margin :: real
  pdf_x :: real
  pdf_y :: real
  finished :: "'c draw list list"
  current :: "'c draw list"

definition pages :: "'c pdf \<Rightarrow> 'c draw list list" where
  "pages pdf = finished pdf @ [current pdf]"

definition add_page :: "'c pdf \<Rightarrow> 'c pdf" where
  "add_page pdf =
     pdf\<lparr>finished := finished pdf @ [current pdf], current := [],
         pdf_x := l_margin pdf, pdf_y := t_margin pdf\<rparr>"

definition emit :: "'c draw \<Rightarrow> 'c pdf \<Rightarrow> 'c pdf" where
  "emit d pdf = pdf\<lparr>current := current pdf @ [d]\<rparr>"

definition set_xy :: "real \<Rightarrow> real \<Rightarrow> 'c pdf \<Rightarrow> 'c pdf" where
  "set_xy x y pdf = pdf\<lparr>pdf_x := x, pdf_y := y\<rparr>"

definition set_y :: "real \<Rightarrow> 'c pdf \<Rightarrow> 'c pdf" where
  "set_y y pdf = pdf\<lparr>pdf_x := l_margin pdf, pdf_y := y\<rparr>"

text \<open>
  \<open>string_width style font_size content\<close> is \<open>pdf.get_string_width(content)\<close> after
  \<open>pdf.set_font(font_name, style, font_size)\<close>: the font metrics are a collaborator.
\<close>

type_synonym 'c metrics = "string \<Rightarrow> real \<Rightarrow> 'c list \<Rightarrow> real"

definition pdf_write :: "'c metrics \<Rightarrow> string \<Rightarrow> real \<Rightarrow> 'c list \<Rightarrow> 'c pdf \<Rightarrow> 'c pdf" where
  "pdf_write string_width style font_size content pdf =
     (emit (DrawText content (pdf_x pdf) (pdf_y pdf)) pdf)
       \<lparr>pdf_x := pdf_x pdf + string_width style font_size content\<rparr>"

definition emoji_scale :: real where
  "emoji_scale = 85 / 100"

text \<open>
  \<open>_write_line\<close>: one iteration of its loop is \<open>write_segment\<close>, on the state
  \<open>(pdf, cache_manager, current_x)\<close>.  \<open>pdf.image\<close> is taken to succeed on a cached
  file.
\<close>

definition write_segment ::
  "'c provider \<Rightarrow> 'c metrics \<Rightarrow> real \<Rightarrow> real \<Rightarrow> real \<Rightarrow> string \<Rightarrow>
   'c pdf \<times> 'c cache_manager \<times> real \<Rightarrow> 'c segment \<Rightarrow> 'c pdf \<times> 'c cache_manager \<times> real" where
  "write_segment prov string_width y line_height font_size style st seg =
     (case st of (pdf, cm, current_x) \<Rightarrow>
      case seg of (is_emoji, content) \<Rightarrow>
        if is_emoji then
          (case get_emoji_image prov content cm of
             (Some emoji_image, cm1) \<Rightarrow>
               (let emoji_size = font_size * emoji_scale * (pdf_k pdf / 72)
                in (emit (DrawEmoji emoji_image current_x
                            (y + (line_height - emoji_size) / 2) emoji_size) pdf,
                    cm1, current_x + emoji_size))
           | (None, cm1) \<Rightarrow> (pdf, cm1, current_x))
        else
          (let pdf1 = pdf_write string_width style font_size content (set_xy current_x y pdf)
           in (pdf1, cm, pdf_x pdf1)))"

definition write_line ::
  "'c provider \<Rightarrow> 'c metrics \<Rightarrow> 'c segment list \<Rightarrow> real \<Rightarrow> real \<Rightarrow> real \<Rightarrow> real \<Rightarrow> string \<Rightarrow>
   'c pdf \<times> 'c cache_manager \<Rightarrow> 'c pdf \<times> 'c cache_manager" where
  "write_line prov string_width segments x y line_height font_size style st =
     (case foldl (write_segment prov string_width y line_height font_size style)
             (fst st, snd st, x) segments of
        (pdf, cm, current_x) \<Rightarrow> (pdf, cm))"


text \<open>
  \<open>_write_text_with_emojis\<close>.  The locals of the first pass are the record
  \<open>layout\<close>; \<open>lines\<close> lists the calls of \<open>_write_line\<close> made so far, each with its
  segments and its vertical position.
\<close>

record 'c layout =
  doc :: "'c pdf \<times> 'c cache_manager"
  y_position :: real
  current_x :: real
  line_segments :: "'c segment list"
  lines :: "('c segment list \<times> real) list"

definition flush_line ::
  "'c provider \<Rightarrow> 'c metrics \<Rightarrow> real \<Rightarrow> real \<Rightarrow> real \<Rightarrow> string \<Rightarrow> 'c layout \<Rightarrow> 'c layout" where
  "flush_line prov string_width x_start line_height font_size style L =
     L\<lparr>doc := write_line prov string_width (line_segments L) x_start (y_position L)
                 line_height font_size style (doc L),
       lines := lines L @ [(line_segments L, y_position L)],
       y_position := y_position L + line_height\<rparr>"

definition pack_segment ::
  "'c provider \<Rightarrow> 'c metrics \<Rightarrow> real \<Rightarrow> real \<Rightarrow> real \<Rightarrow> real \<Rightarrow> string \<Rightarrow>
   'c layout \<Rightarrow> 'c segment \<Rightarrow> 'c layout" where
  "pack_segment prov string_width emoji_size x_start line_height font_size style L seg =
     (let segment_width =
            (if fst seg then emoji_size else string_width style font_size (snd seg));
          L1 = (if current_x L + segment_width > pdf_w (fst (doc L)) - r_margin (fst (doc L))
                then (flush_line prov string_width x_start line_height font_size style L)
                       \<lparr>current_x := x_start, line_segments := []\<rparr>
                else L)
      in L1\<lparr>line_segments := line_segments L1 @ [seg],
             current_x := current_x L1 + segment_width\<rparr>)"

definition layout_segments ::
  "'c provider \<Rightarrow> 'c metrics \<Rightarrow> 'c segment list \<Rightarrow> real \<Rightarrow> string \<Rightarrow>
   'c pdf \<times> 'c cache_manager \<Rightarrow> 'c layout" where
  "layout_segments prov string_width segments font_size style st =
     (let pdf = fst st;
          emoji_size = font_size * emoji_scale * (pdf_k pdf / 72);
          line_height = font_size * (15 / 10);
          x_start = l_margin pdf;
          L0 = \<lparr>doc = st, y_position = pdf_y pdf, current_x = x_start,
                line_segments = [], lines = []\<rparr>;
          L1 = foldl (pack_segment prov string_width emoji_size x_start line_height
                        font_size style) L0 segments;
          L2 = (if line_segments L1 \<noteq> []
                then flush_line prov string_width x_start line_height font_size style L1
                else L1)
      in L2\<lparr>doc := (set_y (y_position L2) (fst (doc L2)), snd (doc L2))\<rparr>)"

text \<open>
  The method itself: nothing happens on the empty text; otherwise the text is segmented and
  laid out.  The result is \<open>None\<close> when the segmentation does not return.
\<close>

definition write_text_with_emojis ::
  "'c list list \<Rightarrow> 'c provider \<Rightarrow> 'c metrics \<Rightarrow> 'c list \<Rightarrow> real \<Rightarrow> string \<Rightarrow>
   'c pdf \<times> 'c cache_manager \<Rightarrow> 'c layout option" where
  "write_text_with_emojis emoji_data prov string_width text font_size style st =
     (if text = [] then
        Some \<lparr>doc = st, y_position = pdf_y (fst st), current_x = l_margin (fst st),
              line_segments = [], lines = []\<rparr>
      else
        (case split_text_and_emojis emoji_data text of
           None \<Rightarrow> None
         | Some segments \<Rightarrow> Some (layout_segments prov string_width segments font_size style st)))"

text \<open>
  The horizontal position that the first pass gives to segment number \<open>n\<close> of a line: the
  value of \<open>current_x\<close> when the segment is appended, that is the line's start plus the
  widths of the segments before it.
\<close>

definition packed_x ::
  "'c metrics \<Rightarrow> real \<Rightarrow> real \<Rightarrow> string \<Rightarrow> real \<Rightarrow> 'c segment list \<Rightarrow> nat \<Rightarrow> real" where
  "packed_x string_width emoji_size font_size style x_start segments n =
     x_start + sum_list (map (\<lambda>seg. if fst seg then emoji_size
                                      else string_width style font_size (snd seg))
                           (take n segments))"

section \<open>Image placement (\<open>PDFGenerator.create_pdf\<close>, the loop over \<open>images\<close>)\<close>

text \<open>
  The sizes of the image placement are Python floats, and each operation on them rounds
  its exact result.  The rounding is the parameter \<open>rnd\<close> of the definitions:
  \<open>a * b\<close> of the source is \<open>rnd (a * b)\<close>, and likewise for \<open>-\<close>, \<open>+\<close> and
  \<open>/\<close>; the division of the two integers \<open>image.height / image.width\<close> is correctly
  rounded too.  \<open>rounding\<close> says what the general theorems need of it: it is monotone,
  it leaves its own results as they are, and it rounds zero to zero.

  \<open>round_double\<close> is the rounding of IEEE 754 binary64, to the nearest number of 53
  significant bits, ties to the even one: \<open>scale\<close> brings the magnitude into
  \<open>[2^52, 2^53)\<close> by doubling or halving, \<open>rne\<close> rounds it to an integer.  The
  exponent range is the fuel of \<open>scale\<close>; infinities and NaN are not modelled.
\<close>

definition rounding :: "(real \<Rightarrow> real) \<Rightarrow> bool" where
  "rounding rnd = (mono rnd \<and> (\<forall>x. rnd (rnd x) = rnd x) \<and> rnd 0 = 0)"

definition rne :: "real \<Rightarrow> int" where
  "rne x =
     (let f = \<lfloor>x\<rfloor>; d = x - of_int f
      in if d < 1 / 2 then f
         else if 1 / 2 < d then f + 1
         else if even f then f else f + 1)"

fun scale :: "nat \<Rightarrow> real \<Rightarrow> int \<Rightarrow> real \<times> int" where
  "scale 0 x e = (x, e)"
| "scale (Suc n) x e =
     (if x < 2 ^ 52 then scale n (x * 2) (e - 1)
      else if 2 ^ 53 \<le> x then scale n (x / 2) (e + 1)
      else (x, e))"

definition round_double :: "real \<Rightarrow> real" where
  "round_double x =
     (if x = 0 then 0
      else (case scale 2200 \<bar>x\<bar> 0 of (m, e) \<Rightarrow> sgn x * of_int (rne m) * 2 powi e))"

text \<open>
  The available height and width, and the display size of an image,
  \<open>(img_width, img_height)\<close>; \<open>None\<close> is the \<open>ZeroDivisionError\<close> of
  \<open>image.height / image.width\<close> or of \<open>img_height / aspect\<close>.
\<close>

definition available_height :: "(real \<Rightarrow> real) \<Rightarrow> 'c pdf \<Rightarrow> real" where
  "available_height rnd pdf = rnd (rnd (pdf_h pdf - t_margin pdf) - b_margin pdf)"

definition available_width :: "(real \<Rightarrow> real) \<Rightarrow> 'c pdf \<Rightarrow> real" where
  "available_width rnd pdf = rnd (pdf_w pdf - 2 * 20)"

definition image_dims :: "(real \<Rightarrow> real) \<Rightarrow> 'c pdf \<Rightarrow> image \<Rightarrow> (real \<times> real) option" where
  "image_dims rnd pdf img =
     (let img_width = available_width rnd pdf in
      if width img = 0 then None
      else
        (let aspect = rnd (real (height img) / real (width img));
             img_height = rnd (img_width * aspect)
         in if img_height > available_height rnd pdf then
              (if aspect = 0 then None
               else Some (rnd (available_height rnd pdf / aspect), available_height rnd pdf))
            else Some (img_width, img_height)))"

text \<open>
  The body of the loop for an image that is not \<open>None\<close>: the page is started first; an
  exception after that is caught and logged, and leaves the new page empty.  The
  exceptions of the model are those of the two divisions; \<open>pdf.image\<close> is taken to
  succeed on a decoded image.
\<close>

definition place_image :: "(real \<Rightarrow> real) \<Rightarrow> image \<Rightarrow> 'c pdf \<Rightarrow> 'c pdf" where
  "place_image rnd img pdf =
     (let pdf1 = add_page pdf in
      case image_dims rnd pdf1 img of
        None \<Rightarrow> pdf1
      | Some (img_width, img_height) \<Rightarrow>
          (let x_pos = rnd (rnd (pdf_w pdf1 - img_width) / 2);
               y_pos = rnd (t_margin pdf1 + 10)
           in emit (DrawImage img x_pos y_pos img_width) pdf1))"

fun place_images :: "(real \<Rightarrow> real) \<Rightarrow> image option list \<Rightarrow> 'c pdf \<Rightarrow> 'c pdf" where
  "place_images rnd [] pdf = pdf"
| "place_images rnd (None # images) pdf = place_images rnd images pdf"
| "place_images rnd (Some img # images) pdf = place_images rnd images (place_image rnd img pdf)"

section \<open>HTML trees and the content extractor (\<open>PDFGenerator._process_content\<close>)\<close>

text \<open>
  \<open>BeautifulSoup(html, 'html.parser')\<close> is a collaborator: \<open>parse\<close> gives the top-level
  children of the tree it builds, or \<open>None\<close> when it raises.  A node is a tag with its
  name and children, a text node, or a comment (a string node that \<open>get_text\<close> leaves
  out).

  \<open>html.unescape\<close> returns a string without \<open>&\<close> as it is; what it does to the
  character references of the others is the parameter \<open>charref_sub\<close>.
\<close>

datatype node = Tag string "node list" | NavigableString string | Comment string

type_synonym parser = "string \<Rightarrow> node list option"

definition html_unescape :: "(string \<Rightarrow> string) \<Rightarrow> string \<Rightarrow> string" where
  "html_unescape charref_sub s = (if CHR ''&'' \<in> set s then charref_sub s else s)"

fun strings_of :: "node \<Rightarrow> string list" where
  "strings_of (Tag name children) = concat (map strings_of children)"
| "strings_of (NavigableString s) = [s]"
| "strings_of (Comment s) = []"

text \<open>\<open>get_text()\<close> of the whole tree, and \<open>element.get_text(strip=True)\<close>.\<close>

definition get_text :: "node list \<Rightarrow> string" where
  "get_text nodes = concat (concat (map strings_of nodes))"










text \<open>\<open>_clean_html_text\<close>; \<open>None\<close> is an exception of the parser.\<close>

definition clean_html_text :: "parser \<Rightarrow> (string \<Rightarrow> string) \<Rightarrow> string \<Rightarrow> string option" where
  "clean_html_text parse charref_sub html_text =
     (if html_text = [] then Some []
      else map_option get_text (parse (html_unescape charref_sub html_text)))"

section \<open>Dates and file names (\<open>_format_date\<close>, \<open>_get_filename\<close>)\<close>

text \<open>
  \<open>datetime.fromisoformat\<close> is a collaborator: the parameter \<open>fromisoformat\<close> gives
  the parsed date, or \<open>None\<close> when it raises.  Of a post the model keeps the fields that
  the file names are made of; a missing key is \<open>None\<close>.
\<close>

record datetime =
  year :: nat
  month :: nat
  day :: nat
  hour :: nat
  minute :: nat

record post =
  post_id :: "int option"
  title_rendered :: "string option"
  date :: "string option"

text \<open>
  \<open>dt.strftime('%Y%m%d')\<close> and \<open>dt.strftime('%Y%m%d @ %H:%M')\<close>, as CPython gives
  them with glibc: the year in decimal as it is (four digits from the year 1000 on, fewer
  below), the other fields padded with zeros to two digits.
\<close>

definition strftime_Ymd :: "datetime \<Rightarrow> string" where
  "strftime_Ymd dt = string_of_nat (year dt) @ zero_pad 2 (month dt) @ zero_pad 2 (day dt)"

definition strftime_Ymd_HM :: "datetime \<Rightarrow> string" where
  "strftime_Ymd_HM dt =
     strftime_Ymd dt @ '' @ '' @ zero_pad 2 (hour dt) @ '':'' @ zero_pad 2 (minute dt)"

definition parse_date :: "(string \<Rightarrow> datetime option) \<Rightarrow> string \<Rightarrow> datetime option" where
  "parse_date fromisoformat date_str = fromisoformat (replace_char (CHR ''Z'') ''+00:00'' date_str)"

definition format_date :: "(string \<Rightarrow> datetime option) \<Rightarrow> string \<Rightarrow> string" where
  "format_date fromisoformat date_str =
     (case parse_date fromisoformat date_str of
        Some dt \<Rightarrow> strftime_Ymd_HM dt
      | None \<Rightarrow> date_str)"

definition get_or :: "'a option \<Rightarrow> 'a \<Rightarrow> 'a" where
  "get_or field dflt = (case field of Some v \<Rightarrow> v | None \<Rightarrow> dflt)"

definition id_str :: "post \<Rightarrow> string \<Rightarrow> string" where
  "id_str p dflt = (case post_id p of Some i \<Rightarrow> string_of_int i | None \<Rightarrow> dflt)"

text \<open>The three lines that clean the title for the file name.\<close>

definition slugify :: "string \<Rightarrow> string" where
  "slugify title =
     (let title1 = filter (\<lambda>c. re_word c \<or> py_isspace c \<or> c = CHR ''-'') title;
          title2 = replace_runs (\<lambda>c. c = CHR ''-'' \<or> py_isspace c) (CHR ''_'') title1
      in strip_char (CHR ''_'') (take 50 title2))"

definition unknown_date_name :: "post \<Rightarrow> string" where
  "unknown_date_name p = ''unknown_date_'' @ id_str p ''unknown'' @ ''.pdf''"

definition get_filename ::
  "(string \<Rightarrow> datetime option) \<Rightarrow> parser \<Rightarrow> (string \<Rightarrow> string) \<Rightarrow> post \<Rightarrow> string" where
  "get_filename fromisoformat parse charref_sub p =
     (case parse_date fromisoformat (get_or (date p) []) of
        None \<Rightarrow> unknown_date_name p
      | Some dt \<Rightarrow>
          (case clean_html_text parse charref_sub (get_or (title_rendered p) ''untitled'') of
             None \<Rightarrow> unknown_date_name p
           | Some title \<Rightarrow> strftime_Ymd dt @ ''_'' @ slugify title @ ''.pdf''))"

section \<open>\<open>TextFormatter\<close> and the paths of \<open>BatchProcessor\<close>\<close>

text \<open>Both cleaners catch every exception: of the parser, here.\<close>

definition strip_tags :: "parser \<Rightarrow> string \<Rightarrow> string option" where
  "strip_tags parse text =
     (if CHR ''<'' \<in> set text \<and> CHR ''>'' \<in> set text then map_option get_text (parse text)
      else Some text)"

definition clean_for_path :: "parser \<Rightarrow> string \<Rightarrow> string" where
  "clean_for_path parse text =
     (if text = [] then ''untitled''
      else
        (case strip_tags parse text of
           None \<Rightarrow> ''untitled''
         | Some text1 \<Rightarrow>
             (let text2 = py_strip (py_lower text1);
                  text3 = replace_char (CHR '' '') ''_'' text2;
                  text4 = filter (\<lambda>c. py_isalnum c \<or> c = CHR ''_'') text3;
                  text5 = rstrip_char (CHR ''_'') (take 50 text4)
              in if text5 \<noteq> [] then text5 else ''untitled'')))"

definition clean_for_display :: "parser \<Rightarrow> string \<Rightarrow> string" where
  "clean_for_display parse text =
     (if text = [] then []
      else
        (case strip_tags parse text of
           None \<Rightarrow> []
         | Some text1 \<Rightarrow> py_strip (join_sp (py_split text1))))"

text \<open>
  \<open>BatchProcessor.__init__\<close> fixes the directories; \<open>get_post_directory\<close> is where
  \<open>process_posts\<close> has \<open>PDFGenerator\<close> write the document of a post, and
  \<open>create_pdf\<close> writes it to \<open>output_dir / filename\<close>.
\<close>

record batch_processor =
  base_dir :: path

definition errors_dir :: "batch_processor \<Rightarrow> path" where
  "errors_dir bp = base_dir bp @ [''errors'']"

definition get_post_directory :: "parser \<Rightarrow> batch_processor \<Rightarrow> post \<Rightarrow> path" where
  "get_post_directory parse bp p =
     base_dir bp @
       [id_str p ''unknown'' @ ''_'' @ clean_for_path parse (get_or (title_rendered p) ''untitled'')]"

definition pdf_path ::
  "(string \<Rightarrow> datetime option) \<Rightarrow> parser \<Rightarrow> (string \<Rightarrow> string) \<Rightarrow> batch_processor \<Rightarrow> post \<Rightarrow> path" where
  "pdf_path fromisoformat parse charref_sub bp p =
     get_post_directory parse bp p @ [get_filename fromisoformat parse charref_sub p]"

definition error_filename :: "parser \<Rightarrow> post \<Rightarrow> string" where
  "error_filename parse p =
     (let title = clean_for_display parse (get_or (title_rendered p) ''Unknown Title'')
      in ''error_'' @ id_str p ''unknown'' @ ''_'' @ clean_for_path parse title @ ''.pdf'')"

definition error_file :: "parser \<Rightarrow> batch_processor \<Rightarrow> post \<Rightarrow> path" where
  "error_file parse bp p = errors_dir bp @ [error_filename parse p]"

text \<open>The directory of a file.\<close>

definition parent :: "path \<Rightarrow> path" where
  "parent f = butlast f"

section \<open>The specification's wording\<close>


text \<open>
  The title slug as the specification words it: every character that is not alphanumeric
  becomes an underscore, runs of underscores are collapsed, the result is cut at 50
  characters and the underscores at its end are removed.
\<close>

definition spec_slug :: "string \<Rightarrow> string" where
  "spec_slug title =
     rstrip_char (CHR ''_'')
       (take 50 (replace_runs (\<lambda>c. c = CHR ''_'') (CHR ''_'')
                   (map (\<lambda>c. if py_isalnum c then c else CHR ''_'') title)))"

section \<open>Concrete inputs\<close>

text \<open>
  The inputs at which the theorems below are evaluated: an empty glyph cache, a provider
  whose requests all fail and one whose requests all succeed, an A4 page in millimetres
  with its first page open, the A4 page as \<open>FPDF\<close> computes it in doubles
  (\<open>k = 72 / 25.4\<close>, \<open>w = 595.28 / k\<close>, \<open>h = 841.89 / k\<close>, margins
  \<open>28.35 / k\<close>, bottom margin 15), font metrics that give every character the width 100, a
  parser for strings without markup (one text node) and one that also knows the title
  \<open>Hello <b>World</b>\<close>, a date parser that knows one date, a post and the
  configured output directory; and for two paragraphs with an ampersand what the parser
  and \<open>html.unescape\<close> make of them.
\<close>

definition non_null :: "'a option list \<Rightarrow> 'a list" where
  "non_null xs = map the (filter (\<lambda>x. x \<noteq> None) xs)"

definition empty_cache :: "'c cache_manager" where
  "empty_cache =
     \<lparr>cache_dir = [''emoji_cache''], emoji_mapping = Map.empty, mapping_file = Map.empty,
      files = {}, fetches = 0\<rparr>"

definition offline :: "'c provider" where
  "offline = \<lparr>response = (\<lambda>n key. None), decodable = (\<lambda>b. True), md5_hex = (\<lambda>key. ''00'')\<rparr>"


definition a4 :: "'c pdf" where
  "a4 =
     \<lparr>pdf_w = 210, pdf_h = 297, pdf_k = 360 / 127, l_margin = 10, r_margin = 10,
      t_margin = 10, b_margin = 15, pdf_x = 10, pdf_y = 10, finished = [], current = []\<rparr>"

definition fpdf_a4 :: "'c pdf" where
  "fpdf_a4 =
     \<lparr>pdf_w = 3694386434950095 / 2 ^ 44, pdf_h = 5224880721207055 / 2 ^ 44,
      pdf_k = 1595763647493483 / 2 ^ 49, l_margin = 351887701353431 / 2 ^ 45,
      r_margin = 351887701353431 / 2 ^ 45, t_margin = 351887701353431 / 2 ^ 45,
      b_margin = 15, pdf_x = 351887701353431 / 2 ^ 45, pdf_y = 351887701353431 / 2 ^ 45,
      finished = [], current = []\<rparr>"

definition wide :: "'c metrics" where
  "wide style font_size content = 100 * real (length content)"

definition text_parser :: parser where
  "text_parser s = Some [NavigableString s]"

definition may_2023 :: datetime where
  "may_2023 = \<lparr>year = 2023, month = 5, day = 1, hour = 10, minute = 0\<rparr>"

definition iso_example :: "string \<Rightarrow> datetime option" where
  "iso_example s = (if s = ''2023-05-01T10:00:00+00:00'' then Some may_2023 else None)"

definition example_parser :: parser where
  "example_parser s =
     (if s = ''Hello <b>World</b>''
      then Some [NavigableString ''Hello '', Tag ''b'' [NavigableString ''World'']]
      else Some [NavigableString s])"

definition example_post :: "string \<Rightarrow> string \<Rightarrow> post" where
  "example_post title d = \<lparr>post_id = Some 7, title_rendered = Some title, date = Some d\<rparr>"

definition test_output :: batch_processor where
  "test_output = \<lparr>base_dir = [''test_output'']\<rparr>"




section \<open>Segmentation: termination and well-formedness\<close>

lemma segments_ok_append_text:
  "segments_ok segs \<Longrightarrow> segs = [] \<or> fst (last segs) \<Longrightarrow> segments_ok (append_text segs cur)"
  by (cases segs rule: rev_cases)
     (auto simp: segments_ok_def append_text_def successively_append_iff)

lemma segments_ok_append_emoji:
  "segments_ok segs \<Longrightarrow> segments_ok (segs @ [(True, em)])"
  by (cases segs rule: rev_cases)
     (auto simp: segments_ok_def successively_append_iff)

lemma concat_append_text:
  "concat (map snd (append_text segs cur)) = concat (map snd segs) @ cur"
  by (simp add: append_text_def)

text \<open>
  The loop invariant: the segments and the pending text spell \<open>text[:i]\<close>, the segments
  are well formed, and the last segment is a glyph.  The loop ends because \<open>i\<close> grows.
\<close>

lemma split_loop_total:
  assumes ne: "[] \<notin> set emoji_data"
  shows "i \<le> length text \<Longrightarrow> concat (map snd segs) @ cur = take i text \<Longrightarrow>
         segments_ok segs \<Longrightarrow> segs = [] \<or> fst (last segs) \<Longrightarrow>
         \<exists>r. split_loop emoji_data text i cur segs = Some r \<and>
             concat (map snd r) = text \<and> segments_ok r"
proof (induction "length text - i" arbitrary: i cur segs rule: less_induct)
  case less
  show ?case
  proof (cases "i < length text")
    case False
    with less.prems have "i = length text" by simp
    with less.prems show ?thesis
      by (subst split_loop.simps)
         (simp add: concat_append_text segments_ok_append_text)
  next
    case True
    show ?thesis
    proof (cases "find (\<lambda>em. prefix em (drop i text)) emoji_data")
      case None
      have step: "split_loop emoji_data text i cur segs =
                  split_loop emoji_data text (i + 1) (cur @ [text ! i]) segs"
        using True None by (subst split_loop.simps) simp
      have "\<exists>r. split_loop emoji_data text (i + 1) (cur @ [text ! i]) segs = Some r \<and>
                concat (map snd r) = text \<and> segments_ok r"
      proof (rule less.hyps)
        show "length text - (i + 1) < length text - i" using True by simp
        show "i + 1 \<le> length text" using True by simp
        show "concat (map snd segs) @ cur @ [text ! i] = take (i + 1) text"
          using less.prems(2) True by (simp add: take_Suc_conv_app_nth)
        show "segments_ok segs" by (rule less.prems(3))
        show "segs = [] \<or> fst (last segs)" by (rule less.prems(4))
      qed
      with step show ?thesis by simp
    next
      case (Some em)
      then have mem: "em \<in> set emoji_data" and pre: "prefix em (drop i text)"
        by (auto simp: find_Some_iff)
      from mem ne have em_ne: "em \<noteq> []" by auto
      from pre obtain rest where rest: "drop i text = em @ rest"
        by (auto simp: prefix_def)
      have len: "i + length em \<le> length text"
      proof -
        have "length (drop i text) = length em + length rest" using rest by simp
        with True show ?thesis by simp
      qed
      have tk: "take (i + length em) text = take i text @ em"
      proof -
        have "take (i + length em) text = take i text @ take (length em) (drop i text)"
          by (simp add: take_add)
        then show ?thesis using rest by simp
      qed
      have step: "split_loop emoji_data text i cur segs =
                  split_loop emoji_data text (i + length em) []
                    (append_text segs cur @ [(True, em)])"
        using True Some by (subst split_loop.simps) simp
      have "\<exists>r. split_loop emoji_data text (i + length em) []
                   (append_text segs cur @ [(True, em)]) = Some r \<and>
                concat (map snd r) = text \<and> segments_ok r"
      proof (rule less.hyps)
        show "length text - (i + length em) < length text - i"
          using True em_ne by (cases em) auto
        show "i + length em \<le> length text" by (rule len)
        show "concat (map snd (append_text segs cur @ [(True, em)])) @ [] =
              take (i + length em) text"
          using less.prems(2) by (simp add: concat_append_text tk)
        show "segments_ok (append_text segs cur @ [(True, em)])"
          by (intro segments_ok_append_emoji segments_ok_append_text less.prems)
        show "append_text segs cur @ [(True, em)] = [] \<or>
              fst (last (append_text segs cur @ [(True, em)]))" by simp
      qed
      with step show ?thesis by simp
    qed
  qed
qed

text \<open>
  C10.  For every input string the segmentation returns (the glyph table holding no empty
  key, without which the loop would not advance), and its result preserves the content and
  is well formed: the contents of the segments, concatenated in order, are the input; no
  text segment is empty; no two text segments are adjacent.
\<close>

theorem split_text_and_emojis_content:
  assumes "[] \<notin> set emoji_data"
  shows "\<exists>segs. split_text_and_emojis emoji_data text = Some segs \<and>
           concat (map snd segs) = text \<and>
           (\<forall>(is_emoji, content) \<in> set segs. \<not> is_emoji \<longrightarrow> content \<noteq> []) \<and>
           successively (\<lambda>a b. fst a \<or> fst b) segs"
proof -
  have "\<exists>r. split_loop emoji_data text 0 [] [] = Some r \<and>
           concat (map snd r) = text \<and> segments_ok r"
    by (rule split_loop_total [OF assms]) (simp_all add: segments_ok_def)
  then obtain r where r: "split_loop emoji_data text 0 [] [] = Some r"
    "concat (map snd r) = text" "segments_ok r" by blast
  from r(3) have "\<forall>(is_emoji, content) \<in> set r. \<not> is_emoji \<longrightarrow> content \<noteq> []"
    unfolding segments_ok_def list_all_iff by fastforce
  moreover from r(3) have "successively (\<lambda>a b. fst a \<or> fst b) r"
    unfolding segments_ok_def by simp
  ultimately show ?thesis
    using r(1,2) unfolding split_text_and_emojis_def by blast
qed

theorem split_text_and_emojis_content_witness:
  "[] \<notin> set [''E'', ''EF''] \<and>
   split_text_and_emojis [''E'', ''EF''] ''abEFc'' =
     Some [(False, ''ab''), (True, ''E''), (False, ''Fc'')] \<and>
   concat (map snd [(False, ''ab''), (True, ''E''), (False, ''Fc'')]) = ''abEFc'' \<and>
   (\<exists>segs. split_text_and_emojis [''E'', ''EF''] ''abEFc'' = Some segs \<and>
      concat (map snd segs) = ''abEFc'' \<and>
      (\<forall>(is_emoji, content) \<in> set segs. \<not> is_emoji \<longrightarrow> content \<noteq> []) \<and>
      successively (\<lambda>a b. fst a \<or> fst b) segs)"
proof -
  have ne: "[] \<notin> set [''E'', ''EF'']" by simp
  have run: "split_text_and_emojis [''E'', ''EF''] ''abEFc'' =
               Some [(False, ''ab''), (True, ''E''), (False, ''Fc'')]"
    by (simp add: split_text_and_emojis_def split_loop.simps append_text_def)
  show ?thesis
    using ne run split_text_and_emojis_content [OF ne, of "''abEFc''"] by simp
qed

section \<open>The glyph cache\<close>



lemma get_emoji_image_fetches:
  "fetches (snd (get_emoji_image prov emoji_char cm)) \<le> fetches cm + 1"
  by (auto simp: get_emoji_image_def Let_def download_emoji_image_def set_mapping_def
        save_emoji_mapping_def split: option.splits)




section \<open>The line layout\<close>

lemmas layout_defs = layout_segments_def pack_segment_def flush_line_def write_line_def
  write_segment_def pdf_write_def set_xy_def set_y_def emit_def Let_def

text \<open>
  A paragraph that is one text segment wider than the usable width: the first pass finds
  that the segment does not fit while the current line is still empty, hands the empty line
  to \<open>_write_line\<close> and moves one line down; the segment follows on the second line.
\<close>

lemma single_wide_segment_lines:
  assumes "string_width style font_size text > pdf_w pdf - r_margin pdf - l_margin pdf"
  shows "lines (layout_segments prov string_width [(False, text)] font_size style (pdf, cm)) =
           [([], pdf_y pdf), ([(False, text)], pdf_y pdf + font_size * (15 / 10))]"
proof -
  have gt: "l_margin pdf + string_width style font_size text > pdf_w pdf - r_margin pdf"
    using assms by simp
  show ?thesis using gt by (simp add: layout_defs)
qed

text \<open>
  C1 at a concrete input: the text \<open>ab\<close> is one text segment of width 200 on a page of
  usable width 190, written at font size 12 from \<open>y = 10\<close>.  The layout emits two
  lines, an empty one at 10 and the segment at 28, draws the text on the second one and
  leaves the cursor at 46, two line heights down.
\<close>

theorem wide_paragraph_blank_line:
  "map_option lines
     (write_text_with_emojis [''E''] offline wide ''ab'' 12 [] (a4, empty_cache)) =
   Some [([], 10), ([(False, ''ab'')], 28)] \<and>
   map_option (\<lambda>L. pdf_y (fst (doc L)))
     (write_text_with_emojis [''E''] offline wide ''ab'' 12 [] (a4, empty_cache)) = Some 46 \<and>
   map_option (\<lambda>L. current (fst (doc L)))
     (write_text_with_emojis [''E''] offline wide ''ab'' 12 [] (a4, empty_cache)) =
     Some [DrawText ''ab'' 10 28] \<and>
   split_text_and_emojis [''E''] ''ab'' = Some [(False, ''ab'')] \<and>
   wide [] 12 ''ab'' > pdf_w (a4 :: char pdf) - r_margin (a4 :: char pdf) - l_margin (a4 :: char pdf)"
proof -
  have seg: "split_text_and_emojis [''E''] ''ab'' = Some [(False, ''ab'')]"
    by (simp add: split_text_and_emojis_def split_loop.simps append_text_def)
  show ?thesis
    by (simp add: write_text_with_emojis_def seg layout_defs a4_def wide_def)
qed

lemma write_segment_miss:
  "get_emoji_image prov g cm = (None, cm1) \<Longrightarrow>
   write_segment prov sw y lh fs style (pdf, cm, cx) (True, g) = (pdf, cm1, cx)"
  by (simp add: write_segment_def)


section \<open>File names\<close>

lemmas char_class_defs = py_isspace_def py_isalnum_def re_word_def

lemma set_replace_runs:
  "set (replace_runs P r s) \<subseteq> insert r {c \<in> set s. \<not> P c}"
proof (induction P r s rule: replace_runs.induct)
  case (1 P r)
  show ?case by simp
next
  case (2 P r c cs)
  have "set (dropWhile P cs) \<subseteq> set cs" by (rule set_dropWhileD [THEN subsetI])
  with 2 show ?case by (auto split: if_splits)
qed

lemma strip_char_subset: "set (strip_char ch s) \<subseteq> set s"
  unfolding strip_char_def
  by (metis set_dropWhileD set_rev subsetI)

lemma length_strip_char: "length (strip_char ch s) \<le> length s"
proof -
  have "length (strip_char ch s) \<le> length (dropWhile (\<lambda>c. c = ch) s)"
    unfolding strip_char_def using length_dropWhile_le [of "\<lambda>c. c = ch" "rev (dropWhile (\<lambda>c. c = ch) s)"]
    by simp
  also have "\<dots> \<le> length s" by (rule length_dropWhile_le)
  finally show ?thesis .
qed

lemma last_dropWhile: "dropWhile P xs \<noteq> [] \<Longrightarrow> last (dropWhile P xs) = last xs"
  by (induction xs) (auto split: if_splits)

lemma strip_char_ends:
  assumes "strip_char ch s \<noteq> []"
  shows "hd (strip_char ch s) \<noteq> ch \<and> last (strip_char ch s) \<noteq> ch"
proof -
  define t where "t = dropWhile (\<lambda>c. c = ch) s"
  define u where "u = dropWhile (\<lambda>c. c = ch) (rev t)"
  have su: "strip_char ch s = rev u" by (simp add: strip_char_def t_def u_def)
  with assms have u: "u \<noteq> []" by simp
  then have t: "t \<noteq> []" by (auto simp: u_def)
  have "hd u \<noteq> ch" using u hd_dropWhile [of "\<lambda>c. c = ch" "rev t"] by (simp add: u_def)
  then have l: "last (rev u) \<noteq> ch" using u by (simp add: last_rev)
  have "last u = last (rev t)" using u unfolding u_def by (rule last_dropWhile)
  also have "\<dots> = hd t" using t by (simp add: last_rev)
  finally have "hd (rev u) = hd t" using u by (simp add: hd_rev)
  moreover have "hd t \<noteq> ch" using t hd_dropWhile [of "\<lambda>c. c = ch" s] by (simp add: t_def)
  ultimately show ?thesis using l su by simp
qed

lemma slugify_word_chars: "list_all re_word (slugify title)"
proof -
  define t1 where "t1 = filter (\<lambda>c. re_word c \<or> py_isspace c \<or> c = CHR ''-'') title"
  define t2 where "t2 = replace_runs (\<lambda>c. c = CHR ''-'' \<or> py_isspace c) (CHR ''_'') t1"
  have "set t2 \<subseteq> insert (CHR ''_'') {c \<in> set t1. \<not> (c = CHR ''-'' \<or> py_isspace c)}"
    unfolding t2_def by (rule set_replace_runs)
  then have "\<forall>c \<in> set t2. re_word c"
    by (auto simp: t1_def re_word_def)
  moreover have "set (slugify title) \<subseteq> set t2"
    using strip_char_subset [of "CHR ''_''" "take 50 t2"] set_take_subset [of 50 t2]
    by (auto simp: slugify_def Let_def t1_def t2_def)
  ultimately show ?thesis by (auto simp: list_all_iff)
qed

lemma length_slugify: "length (slugify title) \<le> 50"
  using length_strip_char [of "CHR ''_''" "take 50 (replace_runs (\<lambda>c. c = CHR ''-'' \<or> py_isspace c) (CHR ''_'')
      (filter (\<lambda>c. re_word c \<or> py_isspace c \<or> c = CHR ''-'') title))"]
  by (simp add: slugify_def Let_def)

lemma slugify_ends:
  "slugify title = [] \<or> (hd (slugify title) \<noteq> CHR ''_'' \<and> last (slugify title) \<noteq> CHR ''_'')"
  using strip_char_ends by (auto simp: slugify_def Let_def)

lemma strftime_may_2023: "strftime_Ymd may_2023 = ''20230501''"
  by (simp add: strftime_Ymd_def may_2023_def zero_pad_def)

text \<open>
  C7, as stated, fails: the title \<open>a.b\<close> gives the file name \<open>20230501_ab.pdf\<close>;
  replacing the character that is not alphanumeric by an underscore would give
  \<open>20230501_a_b.pdf\<close>.
\<close>

theorem get_filename_slug_counterexample:
  "get_filename iso_example text_parser id (example_post ''a.b'' ''2023-05-01T10:00:00Z'')
     = ''20230501_ab.pdf'' \<and>
   strftime_Ymd may_2023 @ ''_'' @ spec_slug ''a.b'' @ ''.pdf'' = ''20230501_a_b.pdf'' \<and>
   get_filename iso_example text_parser id (example_post ''a.b'' ''2023-05-01T10:00:00Z'')
     \<noteq> strftime_Ymd may_2023 @ ''_'' @ spec_slug ''a.b'' @ ''.pdf''"
  by (simp add: get_filename_def example_post_def get_or_def parse_date_def replace_char_def
        iso_example_def clean_html_text_def html_unescape_def text_parser_def get_text_def
        strftime_may_2023 slugify_def spec_slug_def char_class_defs strip_char_def
        rstrip_char_def)

text \<open>
  C8.  When the date string of a post does not parse (after every \<open>Z\<close> has become
  \<open>+00:00\<close>), the date formatting returns the string as it is, and the file name is
  \<open>unknown_date_\<close>, the post's id and \<open>.pdf\<close>.  Both functions are total: the
  parser's exception is the value \<open>None\<close>, and it is handled.
\<close>

theorem unparseable_date_fallback:
  assumes "date p = Some d"
    and "parse_date fromisoformat d = None"
    and "post_id p = Some i"
  shows "format_date fromisoformat d = d \<and>
         get_filename fromisoformat parse charref_sub p =
           ''unknown_date_'' @ string_of_int i @ ''.pdf''"
  using assms
  by (simp add: format_date_def get_filename_def get_or_def unknown_date_name_def id_str_def)

theorem unparseable_date_fallback_witness:
  "parse_date iso_example ''last Tuesday'' = None \<and>
   format_date iso_example ''last Tuesday'' = ''last Tuesday'' \<and>
   get_filename iso_example text_parser id (example_post ''Hello'' ''last Tuesday'') =
     ''unknown_date_7.pdf''"
proof -
  have d: "date (example_post ''Hello'' ''last Tuesday'') = Some ''last Tuesday''"
    by (simp add: example_post_def)
  have pd: "parse_date iso_example ''last Tuesday'' = None"
    by (simp add: parse_date_def replace_char_def iso_example_def)
  have i: "post_id (example_post ''Hello'' ''last Tuesday'') = Some 7"
    by (simp add: example_post_def)
  from unparseable_date_fallback [OF d pd i, of text_parser id] pd show ?thesis
    by (simp add: string_of_int_def)
qed

lemma errors_not_post_directory:
  "errors_dir bp \<noteq> get_post_directory parse bp p"
proof
  assume "errors_dir bp = get_post_directory parse bp p"
  then have "''errors'' =
      id_str p ''unknown'' @ ''_'' @ clean_for_path parse (get_or (title_rendered p) ''untitled'')"
    by (simp add: errors_dir_def get_post_directory_def)
  then have "CHR ''_'' \<in> set ''errors''"
    by (metis in_set_conv_decomp append_Cons)
  then show False by simp
qed

lemma parent_snoc: "parent (dir @ [name]) = dir"
  by (simp add: parent_def)

text \<open>
  C9, amended.  The error document of a post is written into the directory \<open>errors\<close>
  under the base output directory, with the file name \<open>error_\<close>, the post's id, an
  underscore, the title cleaned for paths, and \<open>.pdf\<close>.  The document of a successful
  rendering goes into the post's own directory under the base directory, which is never
  the directory \<open>errors\<close>.
\<close>

theorem error_file_location:
  "error_file parse bp p =
     base_dir bp @ [''errors''] @
       [''error_'' @ id_str p ''unknown'' @ ''_'' @
        clean_for_path parse (clean_for_display parse (get_or (title_rendered p) ''Unknown Title'')) @
        ''.pdf''] \<and>
   parent (error_file parse bp p) = errors_dir bp \<and>
   parent (pdf_path fromisoformat parse charref_sub bp p) = get_post_directory parse bp p \<and>
   parent (error_file parse bp p) \<noteq> parent (pdf_path fromisoformat parse charref_sub bp p)"
proof -
  have a: "error_file parse bp p =
     base_dir bp @ [''errors''] @
       [''error_'' @ id_str p ''unknown'' @ ''_'' @
        clean_for_path parse (clean_for_display parse (get_or (title_rendered p) ''Unknown Title'')) @
        ''.pdf'']"
    by (simp add: error_file_def error_filename_def errors_dir_def Let_def)
  have b: "parent (error_file parse bp p) = errors_dir bp"
    unfolding error_file_def by (rule parent_snoc)
  have c: "parent (pdf_path fromisoformat parse charref_sub bp p) = get_post_directory parse bp p"
    unfolding pdf_path_def by (rule parent_snoc)
  from a b c errors_not_post_directory [of bp parse p] show ?thesis by simp
qed

lemmas clean_defs = clean_for_path_def clean_for_display_def strip_tags_def py_lower_def
  py_split.simps join_sp.simps
  py_lower_char_def upper_chars_def lower_chars_def py_strip_def replace_char_def
  rstrip_char_def Let_def

theorem error_file_location_witness:
  "error_file text_parser test_output (example_post ''Hello World'' ''2023-05-01T10:00:00Z'') =
     [''test_output'', ''errors'', ''error_7_hello_world.pdf''] \<and>
   parent (error_file text_parser test_output (example_post ''Hello World'' ''2023-05-01T10:00:00Z''))
     \<noteq> parent (pdf_path iso_example text_parser id test_output
                  (example_post ''Hello World'' ''2023-05-01T10:00:00Z''))"
proof -
  have ev: "error_file text_parser test_output
              (example_post ''Hello World'' ''2023-05-01T10:00:00Z'') =
            [''test_output'', ''errors'', ''error_7_hello_world.pdf'']"
    by (simp add: error_file_def error_filename_def errors_dir_def test_output_def
          example_post_def get_or_def id_str_def string_of_int_def text_parser_def
          clean_defs char_class_defs)
  from error_file_location [of text_parser test_output
          "example_post ''Hello World'' ''2023-05-01T10:00:00Z''" iso_example id]
  have ne: "parent (error_file text_parser test_output
                      (example_post ''Hello World'' ''2023-05-01T10:00:00Z''))
     \<noteq> parent (pdf_path iso_example text_parser id test_output
                  (example_post ''Hello World'' ''2023-05-01T10:00:00Z''))"
    by blast
  from ev ne show ?thesis by (rule conjI)
qed

text \<open>
  C9, as stated, fails: for the post 7 with the title \<open>Hello World\<close> the error
  document goes to \<open>test_output/errors\<close> and the successful document to
  \<open>test_output/7_hello_world\<close>.
\<close>

theorem error_file_directory_counterexample:
  "parent (error_file text_parser test_output (example_post ''Hello World'' ''2023-05-01T10:00:00Z''))
     = [''test_output'', ''errors''] \<and>
   parent (pdf_path iso_example text_parser id test_output
             (example_post ''Hello World'' ''2023-05-01T10:00:00Z''))
     = [''test_output'', ''7_hello_world''] \<and>
   pdf_path iso_example text_parser id test_output
             (example_post ''Hello World'' ''2023-05-01T10:00:00Z'')
     = [''test_output'', ''7_hello_world'', ''20230501_Hello_World.pdf''] \<and>
   parent (error_file text_parser test_output (example_post ''Hello World'' ''2023-05-01T10:00:00Z''))
     \<noteq> parent (pdf_path iso_example text_parser id test_output
                  (example_post ''Hello World'' ''2023-05-01T10:00:00Z''))"
  by (simp add: parent_def error_file_def errors_dir_def pdf_path_def get_post_directory_def
        butlast_append test_output_def example_post_def get_or_def id_str_def string_of_int_def
        text_parser_def clean_defs char_class_defs
        get_filename_def parse_date_def iso_example_def clean_html_text_def html_unescape_def
        get_text_def strftime_may_2023 slugify_def strip_char_def)

section \<open>The content extractor\<close>














lemma rstrip_space [simp]: "py_isspace c \<Longrightarrow> rstrip [c] = []"
  by (simp add: rstrip_def)

lemma space_is_space [simp]: "py_isspace (CHR '' '')"
  by (simp add: py_isspace_def)












section \<open>Rounding and the image placement\<close>

lemma rne_of_int [simp]: "rne (of_int k) = k"
  by (simp add: rne_def)

lemma rne_range: "\<lfloor>x\<rfloor> \<le> rne x \<and> rne x \<le> \<lfloor>x\<rfloor> + 1"
  by (simp add: rne_def Let_def)

lemma rne_mono:
  assumes "x \<le> y"
  shows "rne x \<le> rne y"
proof (cases "\<lfloor>x\<rfloor> = \<lfloor>y\<rfloor>")
  case True
  with assms have "x - of_int \<lfloor>y\<rfloor> \<le> y - of_int \<lfloor>y\<rfloor>" by simp
  with True show ?thesis by (simp add: rne_def Let_def)
next
  case False
  with assms have "\<lfloor>x\<rfloor> < \<lfloor>y\<rfloor>" using floor_mono [of x y] by simp
  then have "\<lfloor>x\<rfloor> + 1 \<le> \<lfloor>y\<rfloor>" by simp
  with rne_range [of x] rne_range [of y] show ?thesis by linarith
qed

lemma rne_nonneg: "0 \<le> x \<Longrightarrow> 0 \<le> rne x"
  using rne_mono [of 0 x] rne_of_int [of 0] by simp

text \<open>
  What \<open>scale\<close> returns: the magnitude times a power of two, in \<open>[2^52, 2^53)\<close>
  unless the fuel ran out on the way up or down.
\<close>

lemma scale_up_gen:
  "0 < x \<Longrightarrow> x < 2 ^ 53 \<Longrightarrow> scale n x e0 = (m, e) \<Longrightarrow>
   \<exists>j \<le> n. m = x * 2 ^ j \<and> e = e0 - int j \<and> m < 2 ^ 53 \<and> (j < n \<longrightarrow> 2 ^ 52 \<le> m)"
proof (induction n arbitrary: x e0)
  case 0
  then show ?case by simp
next
  case (Suc n)
  show ?case
  proof (cases "x < 2 ^ 52")
    case True
    with Suc.prems have s: "scale n (x * 2) (e0 - 1) = (m, e)" by simp
    have "0 < x * 2" "x * 2 < 2 ^ 53" using Suc.prems True by simp_all
    from Suc.IH [OF this s] obtain j where j: "j \<le> n" "m = x * 2 * 2 ^ j"
      "e = e0 - 1 - int j" "m < 2 ^ 53" "j < n \<longrightarrow> 2 ^ 52 \<le> m" by blast
    show ?thesis
      by (rule exI [of _ "Suc j"]) (use j in \<open>simp add: mult.assoc\<close>)
  next
    case False
    with Suc.prems have "m = x" "e = e0" by simp_all
    with False Suc.prems show ?thesis by (intro exI [of _ 0]) simp
  qed
qed

lemma scale_down_gen:
  "2 ^ 52 \<le> x \<Longrightarrow> scale n x e0 = (m, e) \<Longrightarrow>
   \<exists>j \<le> n. m = x / 2 ^ j \<and> e = e0 + int j \<and> 2 ^ 52 \<le> m \<and> (j < n \<longrightarrow> m < 2 ^ 53)"
proof (induction n arbitrary: x e0)
  case 0
  then show ?case by simp
next
  case (Suc n)
  show ?case
  proof (cases "2 ^ 53 \<le> x")
    case True
    with Suc.prems have s: "scale n (x / 2) (e0 + 1) = (m, e)" by simp
    have "2 ^ 52 \<le> x / 2" using True by simp
    from Suc.IH [OF this s] obtain j where j: "j \<le> n" "m = x / 2 / 2 ^ j"
      "e = e0 + 1 + int j" "2 ^ 52 \<le> m" "j < n \<longrightarrow> m < 2 ^ 53" by blast
    show ?thesis
      by (rule exI [of _ "Suc j"]) (use j in \<open>simp add: field_simps\<close>)
  next
    case False
    with Suc.prems have "m = x" "e = e0" by simp_all
    with False Suc.prems show ?thesis by (intro exI [of _ 0]) simp
  qed
qed

lemma scale_props:
  assumes "0 < x" and "scale n x 0 = (m, e)"
  shows "0 < m \<and> x = m * 2 powi e \<and> - int n \<le> e \<and> e \<le> int n \<and>
         (e < int n \<longrightarrow> m < 2 ^ 53) \<and> (- int n < e \<longrightarrow> 2 ^ 52 \<le> m)"
proof (cases "x < 2 ^ 53")
  case True
  from scale_up_gen [OF assms(1) True assms(2)] obtain j where
    j: "j \<le> n" "m = x * 2 ^ j" "e = - int j" "m < 2 ^ 53" "j < n \<longrightarrow> 2 ^ 52 \<le> m" by auto
  have "x = m * 2 powi e" using j by (simp add: power_int_minus field_simps)
  moreover have "0 < m" using j assms(1) by simp
  ultimately show ?thesis using j by auto
next
  case False
  then have "2 ^ 52 \<le> x" by simp
  from scale_down_gen [OF this assms(2)] obtain j where
    j: "j \<le> n" "m = x / 2 ^ j" "e = int j" "2 ^ 52 \<le> m" "j < n \<longrightarrow> m < 2 ^ 53" by auto
  have "x = m * 2 powi e" using j by simp
  moreover have "0 < m" using j assms(1) by simp
  ultimately show ?thesis using j by auto
qed


lemma round_double_pos:
  assumes "0 < x"
  shows "\<exists>m e. round_double x = of_int (rne m) * 2 powi e \<and> 0 < m \<and> x = m * 2 powi e \<and>
           (e < 2200 \<longrightarrow> m < 2 ^ 53) \<and> (- 2200 < e \<longrightarrow> 2 ^ 52 \<le> m) \<and>
           - 2200 \<le> e \<and> e \<le> 2200"
proof -
  obtain m e where s: "scale 2200 x 0 = (m, e)" by (cases "scale 2200 x 0")
  from scale_props [OF assms s] have p: "0 < m" "x = m * 2 powi e" "- 2200 \<le> e" "e \<le> 2200"
    "e < 2200 \<longrightarrow> m < 2 ^ 53" "- 2200 < e \<longrightarrow> 2 ^ 52 \<le> m" by simp_all
  have "round_double x = of_int (rne m) * 2 powi e"
    using assms s by (simp add: round_double_def)
  with p show ?thesis by blast
qed

lemma two_powi_pos [simp]: "0 < (2::real) powi e"
  by simp

lemma two_powi_Suc: "(2::real) powi (e + 1) = 2 * 2 powi e"
  by (simp add: power_int_add_1')

lemma two_powi_mono: "a \<le> b \<Longrightarrow> (2::real) powi a \<le> 2 powi b"
  by (rule power_int_increasing) simp_all

lemma round_double_nonneg: "0 \<le> x \<Longrightarrow> 0 \<le> round_double x"
proof (cases "x = 0")
  case True
  then show ?thesis by (simp add: round_double_def)
next
  case False
  assume "0 \<le> x"
  with False have "0 < x" by simp
  then obtain m e where r: "round_double x = of_int (rne m) * 2 powi e" and "0 < m"
    using round_double_pos by blast
  then have "0 \<le> rne m" by (intro rne_nonneg) simp
  with r show ?thesis by simp
qed

lemma round_double_minus: "round_double (- x) = - round_double x"
  by (simp add: round_double_def sgn_minus split: prod.splits)

text \<open>
  \<open>round_double\<close> is monotone: two numbers of the same exponent are rounded on the same
  grid, and between two numbers of different exponents lies a power of two, a point of
  both grids.
\<close>

lemma round_double_mono_pos:
  assumes "0 < x" and "x \<le> y"
  shows "round_double x \<le> round_double y"
proof -
  from assms have y: "0 < y" by simp
  from round_double_pos [OF assms(1)] obtain mx ex where
    x: "round_double x = of_int (rne mx) * 2 powi ex"
    "0 < mx" "x = mx * 2 powi ex" "ex < 2200 \<longrightarrow> mx < 2 ^ 53" "- 2200 < ex \<longrightarrow> 2 ^ 52 \<le> mx"
    "- 2200 \<le> ex" "ex \<le> 2200"
    by blast
  from round_double_pos [OF y] obtain my ey where
    y: "round_double y = of_int (rne my) * 2 powi ey"
    "0 < my" "y = my * 2 powi ey" "ey < 2200 \<longrightarrow> my < 2 ^ 53" "- 2200 < ey \<longrightarrow> 2 ^ 52 \<le> my"
    "- 2200 \<le> ey" "ey \<le> 2200"
    by blast
  have le: "ex \<le> ey"
  proof (rule ccontr)
    assume "\<not> ex \<le> ey"
    then have lt: "ey + 1 \<le> ex" by simp
    with x(7) y(6) have "ey < 2200" "- 2200 < ex" by simp_all
    with x(5) y(4) have m: "2 ^ 52 \<le> mx" "my < 2 ^ 53" by simp_all
    have "y < 2 ^ 53 * 2 powi ey" unfolding y(3) using m(2) by simp
    also have "\<dots> = 2 ^ 52 * 2 powi (ey + 1)" by (simp add: two_powi_Suc)
    also have "\<dots> \<le> 2 ^ 52 * 2 powi ex" using two_powi_mono [OF lt] by simp
    also have "\<dots> \<le> x" unfolding x(3) using m(1) by simp
    finally show False using assms(2) by simp
  qed
  show ?thesis
  proof (cases "ex = ey")
    case True
    have "mx * 2 powi ey \<le> my * 2 powi ey" using assms(2) x(3) y(3) True by simp
    then have "mx \<le> my" by simp
    then have "rne mx \<le> rne my" by (rule rne_mono)
    then show ?thesis unfolding x(1) y(1) True by simp
  next
    case False
    with le have lt: "ex + 1 \<le> ey" by simp
    with x(6) y(7) have "ex < 2200" "- 2200 < ey" by simp_all
    with x(4) y(5) have m: "mx < 2 ^ 53" "2 ^ 52 \<le> my" by simp_all
    have "rne mx \<le> rne (of_int (2 ^ 53))" using m(1) by (intro rne_mono) simp
    then have a: "rne mx \<le> 2 ^ 53" by (simp only: rne_of_int)
    have "rne (of_int (2 ^ 52)) \<le> rne my" using m(2) by (intro rne_mono) simp
    then have b: "2 ^ 52 \<le> rne my" by (simp only: rne_of_int)
    have "round_double x \<le> 2 ^ 53 * 2 powi ex"
      unfolding x(1) using a by (simp add: of_int_le_iff [symmetric] del: of_int_le_iff)
    also have "\<dots> = 2 ^ 52 * 2 powi (ex + 1)" by (simp add: two_powi_Suc)
    also have "\<dots> \<le> 2 ^ 52 * 2 powi ey" using two_powi_mono [OF lt] by simp
    also have "\<dots> \<le> round_double y"
      unfolding y(1) using b by (simp add: of_int_le_iff [symmetric] del: of_int_le_iff)
    finally show ?thesis .
  qed
qed

lemma round_double_mono: "x \<le> y \<Longrightarrow> round_double x \<le> round_double y"
proof -
  assume le: "x \<le> y"
  consider "0 < x" | "x \<le> 0" "0 \<le> y" | "y < 0" by linarith
  then show ?thesis
  proof cases
    case 1
    from 1 le show ?thesis by (rule round_double_mono_pos)
  next
    case 2
    have "round_double x \<le> 0"
      using round_double_nonneg [of "- x"] 2(1) by (simp add: round_double_minus)
    also have "0 \<le> round_double y" using 2(2) by (rule round_double_nonneg)
    finally show ?thesis .
  next
    case 3
    with le have "0 < - y" "- y \<le> - x" by simp_all
    then have "round_double (- y) \<le> round_double (- x)" by (rule round_double_mono_pos)
    then show ?thesis by (simp add: round_double_minus)
  qed
qed


lemma round_double_zero [simp]: "round_double 0 = 0"
  by (simp add: round_double_def)

text \<open>A result of \<open>round_double\<close> is rounded to itself.\<close>

lemma round_double_idem_pos:
  assumes "0 < x"
  shows "round_double (round_double x) = round_double x"
proof -
  from round_double_pos [OF assms] obtain m e where
    x: "round_double x = of_int (rne m) * 2 powi e"
    "0 < m" "x = m * 2 powi e" "e < 2200 \<longrightarrow> m < 2 ^ 53" "- 2200 < e \<longrightarrow> 2 ^ 52 \<le> m"
    "- 2200 \<le> e" "e \<le> 2200"
    by blast
  define K where "K = rne m"
  have K0: "0 \<le> K" unfolding K_def using x(2) by (intro rne_nonneg) simp
  have r: "round_double x = of_int K * 2 powi e" by (simp add: x(1) K_def)
  show ?thesis
  proof (cases "K = 0")
    case True
    with r show ?thesis by simp
  next
    case False
    with K0 have K1: "1 \<le> K" by simp
    then have rpos: "0 < round_double x" unfolding r by simp
    from round_double_pos [OF rpos] obtain m' e' where
      y: "round_double (round_double x) = of_int (rne m') * 2 powi e'"
      "0 < m'" "round_double x = m' * 2 powi e'" "e' < 2200 \<longrightarrow> m' < 2 ^ 53"
      "- 2200 < e' \<longrightarrow> 2 ^ 52 \<le> m'" "- 2200 \<le> e'" "e' \<le> 2200"
      by blast
    have m': "m' = of_int K * 2 powi (e - e')"
    proof -
      have "m' * 2 powi e' = of_int K * 2 powi e" using y(3) r by simp
      then have "m' = of_int K * 2 powi e / 2 powi e'" by (simp add: field_simps)
      then show ?thesis by (simp add: power_int_diff)
    qed
    have "\<exists>k::int. m' = of_int k"
    proof (cases "e' \<le> e")
      case True
      then have "(2::real) powi (e - e') = 2 ^ nat (e - e')" by (simp add: power_int_nonneg_exp)
      then have "m' = of_int (K * 2 ^ nat (e - e'))" using m' by simp
      then show ?thesis by blast
    next
      case False
      then have lt: "e + 1 \<le> e'" by simp
      with x(6) y(7) have "- 2200 < e'" "e < 2200" by simp_all
      with x(4) y(5) have b: "2 ^ 52 \<le> m'" "m < 2 ^ 53" by simp_all
      have "rne m \<le> rne (of_int (2 ^ 53))" using b(2) by (intro rne_mono) simp
      then have Kle: "K \<le> 2 ^ 53" unfolding K_def by (simp only: rne_of_int)
      have "(2::real) ^ 53 * 2 powi e = 2 ^ 52 * 2 powi (e + 1)" by (simp add: two_powi_Suc)
      also have "\<dots> \<le> 2 ^ 52 * 2 powi e'" using two_powi_mono [OF lt] by simp
      also have "\<dots> \<le> m' * 2 powi e'" using b(1) by simp
      also have "\<dots> = of_int K * 2 powi e" using y(3) r by simp
      finally have "(2::real) ^ 53 \<le> of_int K" by simp
      then have "(of_int (2 ^ 53) :: real) \<le> of_int K" by simp
      then have "2 ^ 53 \<le> K" by (simp only: of_int_le_iff)
      with Kle have K: "K = 2 ^ 53" by simp
      have "e' \<le> e + 1"
      proof (rule ccontr)
        assume "\<not> e' \<le> e + 1"
        then have "e + 2 \<le> e'" by simp
        then have "(2::real) powi (e + 2) \<le> 2 powi e'" by (rule two_powi_mono)
        then have "4 * 2 powi e \<le> (2::real) powi e'"
          by (simp add: power_int_add)
        then have "2 ^ 52 * (4 * 2 powi e) \<le> 2 ^ 52 * (2::real) powi e'" by simp
        also have "\<dots> \<le> m' * 2 powi e'" using b(1) by simp
        also have "\<dots> = 2 ^ 53 * 2 powi e" using y(3) r K by simp
        finally show False by simp
      qed
      with lt have e': "e' = e + 1" by simp
      have "m' = 2 ^ 53 * 2 powi (- 1)" using m' K e' by simp
      then have "m' = of_int (2 ^ 52)" by (simp add: power_int_minus)
      then show ?thesis by blast
    qed
    then obtain k :: int where "m' = of_int k" by blast
    then have "of_int (rne m') = m'" by simp
    with y(1,3) show ?thesis by simp
  qed
qed

lemma round_double_idem: "round_double (round_double x) = round_double x"
proof -
  consider "0 < x" | "x = 0" | "x < 0" by linarith
  then show ?thesis
  proof cases
    case 1
    then show ?thesis by (rule round_double_idem_pos)
  next
    case 2
    then show ?thesis by simp
  next
    case 3
    then have "0 < - x" by simp
    from round_double_idem_pos [OF this] show ?thesis by (simp add: round_double_minus)
  qed
qed

lemma rounding_round_double: "rounding round_double"
  by (simp add: rounding_def mono_def round_double_mono round_double_idem)

lemma rounding_id: "rounding (\<lambda>x. x)"
  by (simp add: rounding_def mono_def)


text \<open>The evaluation of \<open>round_double\<close> at a numeral.\<close>

lemma scale_numeral:
  "scale (numeral k) x e =
     (if x < 2 ^ 52 then scale (pred_numeral k) (x * 2) (e - 1)
      else if 2 ^ 53 \<le> x then scale (pred_numeral k) (x / 2) (e + 1)
      else (x, e))"
  by (simp add: numeral_eq_Suc)

lemmas round_double_eval = round_double_def scale_numeral rne_def

text \<open>
  C4, as stated, fails in double arithmetic: on the A4 page of \<open>FPDF\<close> an image of
  1920 by 1080 pixels keeps the available width and gets the height
  \<open>rnd (width * 0.5625)\<close>, which is rounded up; the display height times \<open>1 / r\<close>
  is then larger than the available width.
\<close>

theorem image_dims_rounding_counterexample:
  "image_dims round_double fpdf_a4 \<lparr>width = 1920, height = 1080\<rparr> =
     Some (2990698993173455 / 2 ^ 44, 3364536367320137 / 2 ^ 45) \<and>
   available_width round_double fpdf_a4 = 2990698993173455 / 2 ^ 44 \<and>
   \<not> 3364536367320137 / 2 ^ 45 * (1 / (real 1080 / real 1920))
       \<le> available_width round_double fpdf_a4"
  by (simp add: image_dims_def Let_def available_width_def available_height_def fpdf_a4_def
        round_double_eval)


lemma rounding_mono: "rounding rnd \<Longrightarrow> x \<le> y \<Longrightarrow> rnd x \<le> rnd y"
  by (simp add: rounding_def mono_def)

lemma rounding_nonneg: "rounding rnd \<Longrightarrow> 0 \<le> x \<Longrightarrow> 0 \<le> rnd x"
  using rounding_mono [of rnd 0 x] by (simp add: rounding_def)

text \<open>
  C4, amended.  For an image of positive width and height whose aspect ratio
  \<open>r = height / width\<close> does not round to zero, the display size is computed (no
  division by zero); the display width is at most the available width, the page width
  less 20 on each side, and the display height at most the available height, the page
  height less the top and the bottom margin, both as the float operations give them.
  One of the two is the available one, and the other is one rounded multiplication or
  division by the rounded aspect ratio away from it.  When no operation rounds, the
  display width times \<open>r\<close> is at most the available height, the display height times
  \<open>1 / r\<close> at most the available width, and height and width are in the ratio
  \<open>r\<close>.
\<close>

theorem image_dims_fit:
  assumes "rounding rnd" and "0 < width img" and "0 < height img"
    and "rnd (real (height img) / real (width img)) \<noteq> 0"
  shows "\<exists>img_width img_height.
           image_dims rnd pdf img = Some (img_width, img_height) \<and>
           img_width \<le> rnd (pdf_w pdf - 2 * 20) \<and>
           img_height \<le> rnd (rnd (pdf_h pdf - t_margin pdf) - b_margin pdf) \<and>
           (img_width = rnd (pdf_w pdf - 2 * 20) \<and>
              img_height = rnd (img_width * rnd (real (height img) / real (width img))) \<or>
            img_height = rnd (rnd (pdf_h pdf - t_margin pdf) - b_margin pdf) \<and>
              img_width = rnd (img_height / rnd (real (height img) / real (width img)))) \<and>
           ((\<forall>x. rnd x = x) \<longrightarrow>
              img_width * (real (height img) / real (width img))
                \<le> pdf_h pdf - t_margin pdf - b_margin pdf \<and>
              img_height * (1 / (real (height img) / real (width img))) \<le> pdf_w pdf - 2 * 20 \<and>
              img_height = img_width * (real (height img) / real (width img)))"
proof -
  define r where "r = real (height img) / real (width img)"
  define a where "a = rnd r"
  define aw where "aw = rnd (pdf_w pdf - 2 * 20)"
  define ah where "ah = rnd (rnd (pdf_h pdf - t_margin pdf) - b_margin pdf)"
  have mono: "\<And>x y. x \<le> y \<Longrightarrow> rnd x \<le> rnd y"
    using assms(1) by (rule rounding_mono)
  have idem: "\<And>x. rnd (rnd x) = rnd x" using assms(1) by (simp add: rounding_def)
  have r: "0 < r" using assms(2,3) by (simp add: r_def)
  have "0 \<le> r" using r by simp
  with assms(1) have "0 \<le> a" unfolding a_def by (rule rounding_nonneg)
  with assms(4) have a: "0 < a" by (simp add: a_def r_def)
  have fixed: "rnd aw = aw" "rnd ah = ah" by (simp_all add: aw_def ah_def idem)
  show ?thesis
  proof (cases "rnd (aw * a) > ah")
    case True
    have d: "image_dims rnd pdf img = Some (rnd (ah / a), ah)"
      using assms(2) True a
      unfolding image_dims_def Let_def available_width_def available_height_def
        aw_def ah_def a_def r_def
      by simp
    have "ah / a \<le> aw"
    proof (rule ccontr)
      assume "\<not> ah / a \<le> aw"
      then have "aw < ah / a" by simp
      then have "aw * a < ah" using a by (simp add: pos_less_divide_eq)
      then have "aw * a \<le> ah" by simp
      then have "rnd (aw * a) \<le> rnd ah" by (rule mono)
      with True fixed show False by simp
    qed
    then have "rnd (ah / a) \<le> rnd aw" by (rule mono)
    then have w: "rnd (ah / a) \<le> aw" by (simp add: fixed)
    have ex: "(\<forall>x. rnd x = x) \<longrightarrow>
                rnd (ah / a) * r \<le> pdf_h pdf - t_margin pdf - b_margin pdf \<and>
                ah * (1 / r) \<le> pdf_w pdf - 2 * 20 \<and> ah = rnd (ah / a) * r"
    proof
      assume e: "\<forall>x. rnd x = x"
      then have ar: "a = r" by (simp add: a_def)
      from e have ahe: "ah = pdf_h pdf - t_margin pdf - b_margin pdf" by (simp add: ah_def)
      from e have awe: "aw = pdf_w pdf - 2 * 20" by (simp add: aw_def)
      from e have q: "rnd (ah / a) = ah / r" by (simp add: ar)
      have "ah / r \<le> aw" using \<open>ah / a \<le> aw\<close> ar by simp
      with r q ahe awe show "rnd (ah / a) * r \<le> pdf_h pdf - t_margin pdf - b_margin pdf \<and>
                ah * (1 / r) \<le> pdf_w pdf - 2 * 20 \<and> ah = rnd (ah / a) * r"
        by simp
    qed
    have "ah \<le> ah" by simp
    with d w ex show ?thesis
      unfolding r_def a_def aw_def ah_def by blast
  next
    case False
    have d: "image_dims rnd pdf img = Some (aw, rnd (aw * a))"
      using assms(2) False
      unfolding image_dims_def Let_def available_width_def available_height_def
        aw_def ah_def a_def r_def
      by simp
    have h: "rnd (aw * a) \<le> ah" using False by simp
    have ex: "(\<forall>x. rnd x = x) \<longrightarrow>
                aw * r \<le> pdf_h pdf - t_margin pdf - b_margin pdf \<and>
                rnd (aw * a) * (1 / r) \<le> pdf_w pdf - 2 * 20 \<and> rnd (aw * a) = aw * r"
    proof
      assume e: "\<forall>x. rnd x = x"
      then have ar: "a = r" by (simp add: a_def)
      from e have ahe: "ah = pdf_h pdf - t_margin pdf - b_margin pdf" by (simp add: ah_def)
      from e have awe: "aw = pdf_w pdf - 2 * 20" by (simp add: aw_def)
      from e have q: "rnd (aw * a) = aw * r" by (simp add: ar)
      with h r ahe awe show "aw * r \<le> pdf_h pdf - t_margin pdf - b_margin pdf \<and>
                rnd (aw * a) * (1 / r) \<le> pdf_w pdf - 2 * 20 \<and> rnd (aw * a) = aw * r"
        by simp
    qed
    have "aw \<le> aw" by simp
    with d h ex show ?thesis
      unfolding r_def a_def aw_def ah_def by blast
  qed
qed


theorem image_dims_fit_witness:
  "image_dims round_double fpdf_a4 \<lparr>width = 1920, height = 1080\<rparr> =
     Some (2990698993173455 / 2 ^ 44, 3364536367320137 / 2 ^ 45) \<and>
   image_dims round_double fpdf_a4 \<lparr>width = 1080, height = 1920\<rparr> =
     Some (5383185839847113 / 2 ^ 45, 1196263519966025 / 2 ^ 42) \<and>
   round_double (pdf_w fpdf_a4 - 2 * 20) = 2990698993173455 / 2 ^ 44 \<and>
   round_double (round_double (pdf_h fpdf_a4 - t_margin fpdf_a4) - b_margin fpdf_a4) =
     1196263519966025 / 2 ^ 42"
proof -
  have a1: "round_double (real (height \<lparr>width = 1920, height = 1080\<rparr>) /
              real (width \<lparr>width = 1920, height = 1080\<rparr>)) \<noteq> 0"
    by (simp add: round_double_eval)
  have a2: "round_double (real (height \<lparr>width = 1080, height = 1920\<rparr>) /
              real (width \<lparr>width = 1080, height = 1920\<rparr>)) \<noteq> 0"
    by (simp add: round_double_eval)
  have ev: "image_dims round_double fpdf_a4 \<lparr>width = 1920, height = 1080\<rparr> =
     Some (2990698993173455 / 2 ^ 44, 3364536367320137 / 2 ^ 45) \<and>
   image_dims round_double fpdf_a4 \<lparr>width = 1080, height = 1920\<rparr> =
     Some (5383185839847113 / 2 ^ 45, 1196263519966025 / 2 ^ 42) \<and>
   round_double (pdf_w fpdf_a4 - 2 * 20) = 2990698993173455 / 2 ^ 44 \<and>
   round_double (round_double (pdf_h fpdf_a4 - t_margin fpdf_a4) - b_margin fpdf_a4) =
     1196263519966025 / 2 ^ 42"
    by (simp add: image_dims_def Let_def available_width_def available_height_def fpdf_a4_def
          round_double_eval)
  from image_dims_fit [OF rounding_round_double _ _ a1, of fpdf_a4]
       image_dims_fit [OF rounding_round_double _ _ a2, of fpdf_a4] ev
  show ?thesis by simp
qed



lemma pages_place_image:
  assumes "0 < width img" and "rnd (real (height img) / real (width img)) \<noteq> 0"
  shows "\<exists>x y w. pages (place_image rnd img pdf) = pages pdf @ [[DrawImage img x y w]]"
proof -
  have "\<exists>iw ih. image_dims rnd (add_page pdf) img = Some (iw, ih)"
    using assms by (auto simp: image_dims_def Let_def)
  then obtain iw ih where "image_dims rnd (add_page pdf) img = Some (iw, ih)" by blast
  then have "pages (place_image rnd img pdf) =
               pages pdf @ [[DrawImage img (rnd (rnd (pdf_w pdf - iw) / 2)) (rnd (t_margin pdf + 10)) iw]]"
    by (simp add: place_image_def Let_def pages_def emit_def add_page_def)
  then show ?thesis by blast
qed

lemma non_null_simps [simp]:
  "non_null [] = []" "non_null (None # xs) = non_null xs" "non_null (Some x # xs) = x # non_null xs"
  by (simp_all add: non_null_def)

text \<open>
  C5.  The loop over the image list leaves the pages that exist as they are and appends
  one page for each entry that is not \<open>None\<close>, in order; each new page holds exactly one
  draw command, the image of its entry.  A \<open>None\<close> entry adds nothing.  (The images are
  decoded images, of positive width and height, and their aspect ratio is not so small
  that it rounds to zero.)
\<close>

theorem place_images_pages:
  assumes "\<forall>img. Some img \<in> set images \<longrightarrow>
             0 < width img \<and> 0 < height img \<and> rnd (real (height img) / real (width img)) \<noteq> 0"
  shows "\<exists>new. pages (place_images rnd images pdf) = pages pdf @ new \<and>
           list_all2 (\<lambda>page img. \<exists>x y w. page = [DrawImage img x y w]) new (non_null images)"
  using assms
proof (induction images arbitrary: pdf)
  case Nil
  then show ?case by simp
next
  case (Cons i images)
  show ?case
  proof (cases i)
    case None
    with Cons show ?thesis by simp
  next
    case (Some img)
    with Cons.prems have pos: "0 < width img" "rnd (real (height img) / real (width img)) \<noteq> 0"
      by auto
    from pages_place_image [where rnd = rnd and img = img, OF pos] obtain x y w
      where pg: "pages (place_image rnd img pdf) = pages pdf @ [[DrawImage img x y w]]" by blast
    from Cons.IH [of "place_image rnd img pdf"] Cons.prems obtain new
      where new: "pages (place_images rnd images (place_image rnd img pdf)) =
                    pages (place_image rnd img pdf) @ new"
        "list_all2 (\<lambda>page img. \<exists>x y w. page = [DrawImage img x y w]) new (non_null images)"
      by auto
    have "pages (place_images rnd (i # images) pdf) = pages pdf @ ([DrawImage img x y w] # new)"
      using Some new(1) pg by simp
    moreover have "list_all2 (\<lambda>page img. \<exists>x y w. page = [DrawImage img x y w])
                     ([DrawImage img x y w] # new) (non_null (i # images))"
      using Some new(2) by simp
    ultimately show ?thesis by blast
  qed
qed

theorem place_images_pages_witness:
  "pages (place_images round_double [None, Some \<lparr>width = 800, height = 600\<rparr>, None]
            (fpdf_a4 :: char pdf)) =
     pages (fpdf_a4 :: char pdf) @
       [[DrawImage \<lparr>width = 800, height = 600\<rparr> 20 (703731422241751 / 2 ^ 45)
           (2990698993173455 / 2 ^ 44)]] \<and>
   non_null [None, Some \<lparr>width = 800, height = 600\<rparr>, None] = [\<lparr>width = 800, height = 600\<rparr>]"
proof -
  have h: "\<forall>img. Some img \<in> set [None, Some \<lparr>width = 800, height = 600\<rparr>, None] \<longrightarrow>
             0 < width img \<and> 0 < height img \<and>
             round_double (real (height img) / real (width img)) \<noteq> 0"
    by (auto simp: round_double_eval)
  have run: "pages (place_images round_double [None, Some \<lparr>width = 800, height = 600\<rparr>, None]
            (fpdf_a4 :: char pdf)) =
     pages (fpdf_a4 :: char pdf) @
       [[DrawImage \<lparr>width = 800, height = 600\<rparr> 20 (703731422241751 / 2 ^ 45)
           (2990698993173455 / 2 ^ 44)]]"
    by (simp add: place_image_def image_dims_def fpdf_a4_def Let_def add_page_def emit_def
          pages_def available_width_def available_height_def round_double_eval)
  from place_images_pages
         [where rnd = round_double and pdf = "fpdf_a4 :: char pdf", OF h] run
  show ?thesis by simp
qed

section \<open>The render pass and the positions of the first pass\<close>







text \<open>
  The first pass: while the segments fit on the line, segment number \<open>n\<close> is appended at
  \<open>packed_x \<dots> n\<close>, whatever the cache holds, and the line is handed to
  \<open>_write_line\<close> whole, from the left margin.
\<close>

lemma packed_x_snoc:
  "n \<le> length segs \<Longrightarrow>
   packed_x sw es fs style x (segs @ [s]) n = packed_x sw es fs style x segs n"
  by (simp add: packed_x_def)

lemma packed_x_Suc_snoc:
  "packed_x sw es fs style x (segs @ [s]) (Suc (length segs)) =
   packed_x sw es fs style x segs (length segs) + (if fst s then es else sw style fs (snd s))"
  by (simp add: packed_x_def)

lemma pack_fits:
  assumes "line_segments L = []" and "current_x L = x_start"
  shows "\<forall>n < length segs. packed_x sw es fs style x_start segs (Suc n)
             \<le> pdf_w (fst (doc L)) - r_margin (fst (doc L)) \<Longrightarrow>
         foldl (pack_segment prov sw es x_start lh fs style) L segs =
           L\<lparr>line_segments := segs,
             current_x := packed_x sw es fs style x_start segs (length segs)\<rparr>"
proof (induction segs rule: rev_induct)
  case Nil
  with assms show ?case by (simp add: packed_x_def)
next
  case (snoc s segs)
  have "\<forall>n < length segs. packed_x sw es fs style x_start segs (Suc n)
             \<le> pdf_w (fst (doc L)) - r_margin (fst (doc L))"
  proof (intro allI impI)
    fix n assume n: "n < length segs"
    with snoc.prems have "packed_x sw es fs style x_start (segs @ [s]) (Suc n)
             \<le> pdf_w (fst (doc L)) - r_margin (fst (doc L))" by simp
    with n show "packed_x sw es fs style x_start segs (Suc n)
             \<le> pdf_w (fst (doc L)) - r_margin (fst (doc L))"
      by (simp add: packed_x_snoc)
  qed
  from snoc.IH [OF this] have IH: "foldl (pack_segment prov sw es x_start lh fs style) L segs =
           L\<lparr>line_segments := segs,
             current_x := packed_x sw es fs style x_start segs (length segs)\<rparr>" .
  from snoc.prems have fit: "packed_x sw es fs style x_start (segs @ [s]) (Suc (length segs))
             \<le> pdf_w (fst (doc L)) - r_margin (fst (doc L))" by simp
  have "foldl (pack_segment prov sw es x_start lh fs style) L (segs @ [s]) =
          pack_segment prov sw es x_start lh fs style
            (L\<lparr>line_segments := segs,
               current_x := packed_x sw es fs style x_start segs (length segs)\<rparr>) s"
    by (simp only: foldl_append foldl.simps IH)
  also have "\<dots> = L\<lparr>line_segments := segs @ [s],
                      current_x := packed_x sw es fs style x_start (segs @ [s])
                                     (length (segs @ [s]))\<rparr>"
    using fit by (simp add: pack_segment_def Let_def packed_x_Suc_snoc)
  finally show ?case .
qed


lemma layout_one_line:
  assumes "segs \<noteq> []"
    and "\<forall>n < length segs.
           packed_x sw (fs * emoji_scale * (pdf_k pdf / 72)) fs style (l_margin pdf) segs (Suc n)
             \<le> pdf_w pdf - r_margin pdf"
  shows "lines (layout_segments prov sw segs fs style (pdf, cm)) = [(segs, pdf_y pdf)] \<and>
         doc (layout_segments prov sw segs fs style (pdf, cm)) =
           (set_y (pdf_y pdf + fs * (15 / 10))
              (fst (write_line prov sw segs (l_margin pdf) (pdf_y pdf) (fs * (15 / 10)) fs style
                      (pdf, cm))),
            snd (write_line prov sw segs (l_margin pdf) (pdf_y pdf) (fs * (15 / 10)) fs style
                   (pdf, cm)))"
proof -
  define L0 :: "'a layout" where
    "L0 = \<lparr>doc = (pdf, cm), y_position = pdf_y pdf, current_x = l_margin pdf,
            line_segments = [], lines = []\<rparr>"
  have fits: "\<forall>n < length segs.
           packed_x sw (fs * emoji_scale * (pdf_k pdf / 72)) fs style (l_margin pdf) segs (Suc n)
             \<le> pdf_w (fst (doc L0)) - r_margin (fst (doc L0))"
    using assms(2) by (simp add: L0_def)
  have "foldl (pack_segment prov sw (fs * emoji_scale * (pdf_k pdf / 72)) (l_margin pdf)
                 (fs * (15 / 10)) fs style) L0 segs =
        L0\<lparr>line_segments := segs,
           current_x := packed_x sw (fs * emoji_scale * (pdf_k pdf / 72)) fs style (l_margin pdf)
                          segs (length segs)\<rparr>"
    by (rule pack_fits [OF _ _ fits]) (simp_all add: L0_def)
  then show ?thesis
    using assms(1)
    by (simp add: layout_segments_def Let_def L0_def [symmetric] flush_line_def)
       (simp add: L0_def)
qed

section \<open>The date of the file name, and paragraphs with an ampersand\<close>

lemma length_string_of_nat_4:
  assumes "1000 \<le> n" and "n < 10000"
  shows "length (string_of_nat n) = 4"
proof -
  have a: "string_of_nat n = string_of_nat (n div 10) @ [''0123456789'' ! (n mod 10)]"
    using assms by (subst string_of_nat.simps) simp
  have b: "string_of_nat (n div 10) =
             string_of_nat (n div 10 div 10) @ [''0123456789'' ! (n div 10 mod 10)]"
    using assms by (subst string_of_nat.simps) simp
  have c: "string_of_nat (n div 10 div 10) =
             string_of_nat (n div 10 div 10 div 10) @ [''0123456789'' ! (n div 10 div 10 mod 10)]"
    using assms by (subst string_of_nat.simps) simp
  have d: "string_of_nat (n div 10 div 10 div 10) =
             [''0123456789'' ! (n div 10 div 10 div 10)]"
    using assms by (subst string_of_nat.simps) simp
  show ?thesis by (simp only: a b c d) simp
qed

lemma length_zero_pad_2: "n < 100 \<Longrightarrow> length (zero_pad 2 n) = 2"
proof -
  assume n: "n < 100"
  show ?thesis
  proof (cases "n < 10")
    case True
    then have "string_of_nat n = [''0123456789'' ! n]" by (subst string_of_nat.simps) simp
    then show ?thesis by (simp add: zero_pad_def)
  next
    case False
    then have "string_of_nat n = string_of_nat (n div 10) @ [''0123456789'' ! (n mod 10)]"
      by (subst string_of_nat.simps) simp
    moreover have "string_of_nat (n div 10) = [''0123456789'' ! (n div 10)]"
      using n by (subst string_of_nat.simps) simp
    ultimately show ?thesis by (simp add: zero_pad_def)
  qed
qed

lemma length_strftime_Ymd:
  "1000 \<le> year dt \<Longrightarrow> year dt < 10000 \<Longrightarrow> month dt < 100 \<Longrightarrow> day dt < 100 \<Longrightarrow>
   length (strftime_Ymd dt) = 8"
  by (simp add: strftime_Ymd_def length_string_of_nat_4 length_zero_pad_2
        del: string_of_nat.simps)

text \<open>
  C7, amended.  For a post whose date parses: when the cleaning of the title goes through,
  the file name is the date as \<open>strftime('%Y%m%d')\<close> gives it, an underscore, the slug
  of the cleaned title and \<open>.pdf\<close>; when the cleaning raises, the file name is
  \<open>unknown_date_\<close>, the post's id and \<open>.pdf\<close>.  The slug is the cleaned title with
  every character deleted that is not a word character (alphanumeric or underscore),
  whitespace or a hyphen, each run of hyphens and whitespace replaced by one underscore,
  cut at 50 characters, and the underscores at both ends removed (\<open>slugify\<close>): it holds
  word characters only, at most 50 of them, and neither starts nor ends with an
  underscore.  The date is the year in decimal and month and day in two digits each: the
  eight characters \<open>YYYYMMDD\<close> for the years 1000 to 9999.
\<close>

theorem get_filename_dated:
  assumes "date p = Some d"
    and "parse_date fromisoformat d = Some dt"
  shows "(case clean_html_text parse charref_sub (get_or (title_rendered p) ''untitled'') of
            Some title \<Rightarrow>
              get_filename fromisoformat parse charref_sub p =
                strftime_Ymd dt @ ''_'' @ slugify title @ ''.pdf'' \<and>
              list_all re_word (slugify title) \<and> length (slugify title) \<le> 50 \<and>
              (slugify title = [] \<or>
                 (hd (slugify title) \<noteq> CHR ''_'' \<and> last (slugify title) \<noteq> CHR ''_''))
          | None \<Rightarrow>
              get_filename fromisoformat parse charref_sub p =
                ''unknown_date_'' @ id_str p ''unknown'' @ ''.pdf'') \<and>
         strftime_Ymd dt = string_of_nat (year dt) @ zero_pad 2 (month dt) @ zero_pad 2 (day dt) \<and>
         (1000 \<le> year dt \<and> year dt < 10000 \<and> month dt < 100 \<and> day dt < 100 \<longrightarrow>
            length (strftime_Ymd dt) = 8)"
proof (cases "clean_html_text parse charref_sub (get_or (title_rendered p) ''untitled'')")
  case None
  have "get_filename fromisoformat parse charref_sub p =
          ''unknown_date_'' @ id_str p ''unknown'' @ ''.pdf''"
    using assms None by (simp add: get_filename_def get_or_def unknown_date_name_def)
  with None length_strftime_Ymd [of dt] show ?thesis
    by (simp add: strftime_Ymd_def del: string_of_nat.simps)
next
  case (Some title)
  have "get_filename fromisoformat parse charref_sub p =
          strftime_Ymd dt @ ''_'' @ slugify title @ ''.pdf''"
    using assms Some by (simp add: get_filename_def get_or_def)
  with Some slugify_word_chars [of title] length_slugify [of title] slugify_ends [of title]
    length_strftime_Ymd [of dt]
  show ?thesis
    by (simp add: strftime_Ymd_def [symmetric] del: string_of_nat.simps)
qed

theorem get_filename_dated_witness:
  "get_filename iso_example example_parser id
     (example_post ''Hello <b>World</b>'' ''2023-05-01T10:00:00Z'') = ''20230501_Hello_World.pdf'' \<and>
   parse_date iso_example ''2023-05-01T10:00:00Z'' = Some may_2023 \<and>
   clean_html_text example_parser id ''Hello <b>World</b>'' = Some ''Hello World'' \<and>
   slugify ''Hello World'' = ''Hello_World'' \<and>
   strftime_Ymd may_2023 = ''20230501''"
proof -
  have d: "date (example_post ''Hello <b>World</b>'' ''2023-05-01T10:00:00Z'') =
             Some ''2023-05-01T10:00:00Z''"
    by (simp add: example_post_def)
  have pd: "parse_date iso_example ''2023-05-01T10:00:00Z'' = Some may_2023"
    by (simp add: parse_date_def replace_char_def iso_example_def)
  have ct: "clean_html_text example_parser id
              (get_or (title_rendered (example_post ''Hello <b>World</b>'' ''2023-05-01T10:00:00Z''))
                 ''untitled'') = Some ''Hello World''"
    by (simp add: example_post_def get_or_def clean_html_text_def html_unescape_def
          example_parser_def get_text_def)
  have sl: "slugify ''Hello World'' = ''Hello_World''"
    by (simp add: slugify_def char_class_defs strip_char_def)
  from get_filename_dated [OF d pd, of example_parser id] pd ct sl strftime_may_2023
  show ?thesis
    by (simp add: example_post_def get_or_def)
qed


end
